theory Spec2Isabelle
  imports Main "HOL-Library.Sublist" "HOL-Library.Char_ord" "HOL-Library.List_Lexorder"
begin

section \<open>Strings and paths of the Go standard library\<close>

text \<open>
  The deployment code works on Go strings (byte sequences, here \<^typ>\<open>string\<close>) through a
  handful of functions of the packages \<open>strings\<close>, \<open>path\<close> and \<open>path/filepath\<close>. They are not
  part of the repository; they are written out here after their documented behaviour on a
  system whose path separator is \<open>/\<close>, where \<open>path\<close> and \<open>path/filepath\<close> agree.
  Every call of the repository passes a separator of one byte, so \<open>strings.Split\<close> and
  \<open>strings.LastIndex\<close> take a \<^typ>\<open>char\<close>.
\<close>

fun strings_Split :: "string \<Rightarrow> char \<Rightarrow> string list" where
  "strings_Split [] sep = [[]]"
| "strings_Split (c # cs) sep =
     (if c = sep then [] # strings_Split cs sep
      else (case strings_Split cs sep of [] \<Rightarrow> [[c]] | e # es \<Rightarrow> (c # e) # es))"

fun strings_Join :: "string list \<Rightarrow> string \<Rightarrow> string" where
  "strings_Join [] sep = []"
| "strings_Join [e] sep = e"
| "strings_Join (e # es) sep = e @ sep @ strings_Join es sep"

definition strings_HasPrefix :: "string \<Rightarrow> string \<Rightarrow> bool" where
  "strings_HasPrefix s p = prefix p s"

definition strings_TrimSuffix :: "string \<Rightarrow> string \<Rightarrow> string" where
  "strings_TrimSuffix s suf = (if suffix suf s then take (length s - length suf) s else s)"

text \<open>\<open>strings.LastIndex\<close>: the index of the last occurrence of the byte, \<open>-1\<close> when there is none.\<close>

definition strings_LastIndex :: "string \<Rightarrow> char \<Rightarrow> int" where
  "strings_LastIndex s c =
     (if c \<in> set s then int (length s) - 1 - int (length (takeWhile (\<lambda>x. x \<noteq> c) (rev s)))
      else - 1)"

text \<open>
  \<open>strings.ReplaceAll\<close> scans from the left and replaces the non-overlapping occurrences of
  \<open>old\<close>. For an empty \<open>old\<close> Go inserts \<open>new\<close> before every character and at the end (written
  here for one-byte characters); the repository never passes an empty \<open>old\<close>.
\<close>

function strings_ReplaceAll :: "string \<Rightarrow> string \<Rightarrow> string \<Rightarrow> string" where
  "strings_ReplaceAll s old new =
     (if old = [] then new @ concat (map (\<lambda>c. c # new) s)
      else if s = [] then []
      else if prefix old s then new @ strings_ReplaceAll (drop (length old) s) old new
      else hd s # strings_ReplaceAll (tl s) old new)"
  by pat_completeness auto
termination
  by (relation "measure (\<lambda>(s, old, new). length s)") auto

declare strings_ReplaceAll.simps [simp del]

text \<open>
  \<open>filepath.Clean\<close> works on the elements of the path: empty elements and \<open>.\<close> are dropped,
  \<open>..\<close> removes the element before it, is dropped at the root, and is kept at the front of a
  relative path. The empty result of a relative path is \<open>.\<close>.
\<close>

fun cleanElems :: "bool \<Rightarrow> string list \<Rightarrow> string list \<Rightarrow> string list" where
  "cleanElems rooted [] out = out"
| "cleanElems rooted (e # es) out =
     (if e = [] \<or> e = ''.'' then cleanElems rooted es out
      else if e = ''..'' then
        (if out \<noteq> [] \<and> last out \<noteq> ''..'' then cleanElems rooted es (butlast out)
         else if \<not> rooted then cleanElems rooted es (out @ [''..''])
         else cleanElems rooted es out)
      else cleanElems rooted es (out @ [e]))"

definition filepath_Clean :: "string \<Rightarrow> string" where
  "filepath_Clean p =
     (if p = [] then ''.''
      else let rooted = (hd p = CHR ''/'');
               out = cleanElems rooted (strings_Split p (CHR ''/'')) []
           in if rooted then CHR ''/'' # strings_Join out ''/''
              else if out = [] then ''.''
              else strings_Join out ''/'')"

text \<open>\<open>filepath.Dir\<close>: everything up to the last separator, cleaned.\<close>

definition filepath_Dir :: "string \<Rightarrow> string" where
  "filepath_Dir p = filepath_Clean (rev (dropWhile (\<lambda>c. c \<noteq> CHR ''/'') (rev p)))"

text \<open>\<open>filepath.Base\<close>: the last element, after the trailing separators are removed.\<close>

definition filepath_Base :: "string \<Rightarrow> string" where
  "filepath_Base p =
     (if p = [] then ''.''
      else let q = rev (dropWhile (\<lambda>c. c = CHR ''/'') (rev p));
               b = rev (takeWhile (\<lambda>c. c \<noteq> CHR ''/'') (rev q))
           in if b = [] then ''/'' else b)"

text \<open>\<open>path.Join\<close> and \<open>filepath.Join\<close>: leading empty elements are ignored, the rest is
  joined by the separator and cleaned; the join of empty elements only is the empty string.\<close>

definition filepath_Join :: "string list \<Rightarrow> string" where
  "filepath_Join elems =
     (let es = dropWhile (\<lambda>e. e = []) elems
      in if es = [] then [] else filepath_Clean (strings_Join es ''/''))"

text \<open>
  \<open>filepath.Match\<close> for patterns made of literal bytes and \<open>*\<close>, which is all that the
  repository's pattern \<open>*.sops.*\<close> uses: \<open>*\<close> matches any run of bytes other than the
  separator.
\<close>

fun filepath_Match :: "string \<Rightarrow> string \<Rightarrow> bool" where
  "filepath_Match [] s = (s = [])"
| "filepath_Match (p # ps) [] = (p = CHR ''*'' \<and> filepath_Match ps [])"
| "filepath_Match (p # ps) (c # cs) =
     (if p = CHR ''*''
      then filepath_Match ps (c # cs) \<or> (c \<noteq> CHR ''/'' \<and> filepath_Match (p # ps) cs)
      else p = c \<and> filepath_Match ps cs)"

section \<open>Root directories of the compose files\<close>

text \<open>
  \<open>findRootPaths\<close> (deploy.go): the folder of every file, sorted as \<open>sort.Strings\<close> does
  (bytewise), then one pass that appends a folder when the last kept folder is not a string
  prefix of it (\<open>strings.HasPrefix\<close>). The loop starts at index 0, where the first folder
  meets itself.
\<close>

fun rootPathsLoop :: "string list \<Rightarrow> string list \<Rightarrow> string list" where
  "rootPathsLoop rootPaths [] = rootPaths"
| "rootPathsLoop rootPaths (f # fs) =
     (if \<not> strings_HasPrefix f (last rootPaths) then rootPathsLoop (rootPaths @ [f]) fs
      else rootPathsLoop rootPaths fs)"

definition findRootPaths :: "string list \<Rightarrow> string list" where
  "findRootPaths filePaths =
     (if length filePaths = 0 then []
      else let folderPaths = sort (map (\<lambda>p. filepath_Clean (filepath_Dir p)) filePaths)
           in rootPathsLoop [folderPaths ! 0] folderPaths)"

text \<open>
  A directory \<open>d\<close> lies within a directory \<open>r\<close> when it is \<open>r\<close> itself or \<open>r\<close>, closed by a
  separator, is a prefix of \<open>d\<close>: the containment of paths, element by element.
\<close>

definition pathWithin :: "string \<Rightarrow> string \<Rightarrow> bool" where
  "pathWithin r d =
     (d = r \<or> prefix (if r \<noteq> [] \<and> last r = CHR ''/'' then r else r @ ''/'') d)"

section \<open>Errors, external calls and the trace of a run\<close>

text \<open>
  A Go \<open>error\<close> that a command returns to its caller is \<open>errDeployComposeFailure\<close> (the
  package variable of deploy.go), a fresh value of \<open>errors.New\<close> (never equal to the package
  variable, whatever its text) or a value of \<open>fmt.Errorf\<close> that wraps another one. An error of
  a library call is only compared with \<open>nil\<close> and logged; it is kept as its text.
\<close>

datatype error = errDeployComposeFailure | errors_New string | fmt_Errorf string error

datatype level = DebugLevel | InfoLevel | WarnLevel | ErrorLevel

datatype BasicAuth = BasicAuth string string

datatype TagMode = InvalidTagMode | TagFollowing | AllTags | NoTags

datatype AuthConfig = AuthConfig string string string

record CloneOptions =
  URL :: string
  ReferenceName :: string
  Auth :: "BasicAuth option"
  Depth :: int
  InsecureSkipTLS :: bool
  Tags :: TagMode

text \<open>\<open>libstack.DeployOptions\<close> with its embedded \<open>libstack.Options\<close>; a field that a call
  leaves out has Go's zero value.\<close>

record DeployOptions =
  opt_WorkingDir :: string
  opt_ProjectName :: string
  opt_Env :: "string list option"
  opt_Registries :: "AuthConfig list"
  opt_ForceRecreate :: bool
  opt_RemoveOrphans :: bool

text \<open>
  The four command structs are declared outside the files at hand; the record has the fields
  that the \<open>Run\<close> methods read, and serves all four commands. \<open>Env\<close> is a slice that
  \<open>runCommandAndCaptureStdErr\<close> compares with \<open>nil\<close>, so \<open>None\<close> is the nil slice. The
  cancellation context of \<open>CommandExecutionContext\<close> is left out.
\<close>

record DeployCommand =
  User :: string
  Password :: string
  Keep :: bool
  SkipTLSVerify :: bool
  Env :: "string list option"
  Registry :: "string list"
  GitRepository :: string
  Reference :: string
  ProjectName :: string
  Destination :: string
  ComposeRelativeFilePaths :: "string list"
  ForceRecreateStack :: bool
  Prune :: bool

text \<open>
  The type of a directory entry, as the type bits of its \<open>fs.FileMode\<close> say: a regular file
  (no type bit), a directory, a symbolic link (\<open>filepath.WalkDir\<close> does not follow it) or
  something else (a device, a pipe, a socket).
\<close>

datatype fileType = RegularFile | Directory | Symlink | Irregular

text \<open>
  What \<open>filepath.WalkDir\<close> hands to its callback: an error at a path, or a path with the
  \<open>fs.DirEntry\<close> of that path, of which the type is kept. The entry belongs to the path:
  \<open>Name\<close> is the last element of the path and \<open>IsDir\<close> says whether the type is that of a
  directory.
\<close>

datatype visit = VisitErr string string | VisitEntry string fileType

definition DirEntry_Name :: "string \<Rightarrow> string" where
  "DirEntry_Name path = filepath_Base path"

definition DirEntry_IsDir :: "fileType \<Rightarrow> bool" where
  "DirEntry_IsDir t = (t = Directory)"

text \<open>
  Every call that leaves the process is an event of the trace, together with its result. A log
  call is kept with its level only. \<open>CmdRun\<close> is \<open>exec.Cmd.Run\<close> with the command, its
  arguments, the environment set on it (\<open>None\<close>: inherited), its directory and, when it
  fails, what it wrote to stderr.
\<close>

datatype event =
    Log level
  | CmdRun string "string list" "string list option" string "string option"
  | OsStat string "string option"
  | OsRemoveAll string "string option"
  | OsMkdirAll string nat "string option"
  | PlainCloneContext string bool CloneOptions "string option"
  | NewComposeDeployer "string list" "string option"
  | Deploy "string list" DeployOptions "string option"
  | Remove string "string option"
  | WalkDir string "visit list"
  | CheckRunningService string "error + string list"
  | DeploySwarmStack DeployCommand string "error option"
  | UpdateService string "bool option" "error option"

text \<open>
  The world outside: the constants \<open>BIN_PATH\<close> and \<open>PORTAINER_DOCKER_CONFIG_PATH\<close> and the
  functions \<open>checkRunningService\<close>, \<open>deploySwarmStack\<close> and \<open>updateService\<close> of the repository,
  which are not in the files at hand, and the operating system, git and the compose library.
  Each answer may depend on everything that happened before, the trace so far.
\<close>

record world =
  BIN_PATH :: string
  PORTAINER_DOCKER_CONFIG_PATH :: string
  GOOS :: string
  osEnviron :: "string list"
  cmdRun :: "event list \<Rightarrow> string \<Rightarrow> string list \<Rightarrow> string list option \<Rightarrow> string \<Rightarrow> string option"
  osStat :: "event list \<Rightarrow> string \<Rightarrow> string option"
  osRemoveAll :: "event list \<Rightarrow> string \<Rightarrow> string option"
  osMkdirAll :: "event list \<Rightarrow> string \<Rightarrow> nat \<Rightarrow> string option"
  gitPlainCloneContext :: "event list \<Rightarrow> string \<Rightarrow> bool \<Rightarrow> CloneOptions \<Rightarrow> string option"
  newComposeDeployer :: "event list \<Rightarrow> string list \<Rightarrow> string option"
  deployerDeploy :: "event list \<Rightarrow> string list \<Rightarrow> DeployOptions \<Rightarrow> string option"
  deployerRemove :: "event list \<Rightarrow> string \<Rightarrow> string option"
  walkDir :: "event list \<Rightarrow> string \<Rightarrow> visit list"
  checkRunningService :: "event list \<Rightarrow> string \<Rightarrow> error + string list"
  deploySwarmStack :: "event list \<Rightarrow> DeployCommand \<Rightarrow> string \<Rightarrow> error option"
  updateService :: "event list \<Rightarrow> string \<Rightarrow> bool option \<Rightarrow> error option"

text \<open>The events that a step added to the trace it started from.\<close>

definition emitted :: "event list \<Rightarrow> 'a \<times> event list \<Rightarrow> event list" where
  "emitted tr r = drop (length tr) (snd r)"

section \<open>Helpers of deploy.go\<close>

definition runCommandAndCaptureStdErr ::
  "world \<Rightarrow> string \<Rightarrow> string list \<Rightarrow> string list option \<Rightarrow> string \<Rightarrow> event list
     \<Rightarrow> error option \<times> event list" where
  "runCommandAndCaptureStdErr w command args env workingDir tr =
     (let cmdEnv = (case env of None \<Rightarrow> None | Some e \<Rightarrow> Some (osEnviron w @ e));
          r = cmdRun w tr command args cmdEnv workingDir;
          tr1 = tr @ [CmdRun command args cmdEnv workingDir r]
      in case r of None \<Rightarrow> (None, tr1)
         | Some stderr \<Rightarrow> (Some (errors_New stderr), tr1))"

definition getAuth :: "string \<Rightarrow> string \<Rightarrow> BasicAuth option" where
  "getAuth username password =
     (if password \<noteq> [] then Some (BasicAuth (if username = [] then ''token'' else username) password)
      else None)"

definition makeWorkingDir :: "string \<Rightarrow> string \<Rightarrow> string" where
  "makeWorkingDir target stackName = filepath_Join [target, ''stacks'', stackName]"

definition getDockerBinaryPath :: "world \<Rightarrow> string" where
  "getDockerBinaryPath w =
     (if GOOS w = ''windows'' then filepath_Join [BIN_PATH w, ''docker.exe'']
      else filepath_Join [BIN_PATH w, ''docker''])"

definition getSopsBinaryPath :: "world \<Rightarrow> string" where
  "getSopsBinaryPath w =
     (if GOOS w = ''windows'' then filepath_Join [BIN_PATH w, ''sops.exe'']
      else filepath_Join [BIN_PATH w, ''sops''])"

subsection \<open>Registry login and logout\<close>

definition loginArgs :: "world \<Rightarrow> string list \<Rightarrow> string list" where
  "loginArgs w credentials =
     [''--config'', PORTAINER_DOCKER_CONFIG_PATH w, ''login'', ''--username'', credentials ! 0,
      ''--password'', credentials ! 1, credentials ! 2]"

definition logoutArgs :: "world \<Rightarrow> string list \<Rightarrow> string list" where
  "logoutArgs w credentials =
     [''--config'', PORTAINER_DOCKER_CONFIG_PATH w, ''logout'', credentials ! 2]"

fun dockerLogin :: "world \<Rightarrow> string list \<Rightarrow> event list \<Rightarrow> error option \<times> event list" where
  "dockerLogin w [] tr = (None, tr)"
| "dockerLogin w (registry # registries) tr =
     (let credentials = strings_Split registry (CHR '':'')
      in if length credentials \<noteq> 3 then dockerLogin w registries (tr @ [Log WarnLevel])
         else (case runCommandAndCaptureStdErr w (getDockerBinaryPath w)
                      (loginArgs w credentials) None [] tr of
                 (Some err, tr1) \<Rightarrow> dockerLogin w registries (tr1 @ [Log WarnLevel])
               | (None, tr1) \<Rightarrow> dockerLogin w registries (tr1 @ [Log InfoLevel])))"

fun dockerLogout :: "world \<Rightarrow> string list \<Rightarrow> event list \<Rightarrow> error option \<times> event list" where
  "dockerLogout w [] tr = (None, tr)"
| "dockerLogout w (registry # registries) tr =
     (let credentials = strings_Split registry (CHR '':'')
      in if length credentials \<noteq> 3 then dockerLogout w registries (tr @ [Log WarnLevel])
         else (case runCommandAndCaptureStdErr w (getDockerBinaryPath w)
                      (logoutArgs w credentials) None [] tr of
                 (Some err, tr1) \<Rightarrow> dockerLogout w registries (tr1 @ [Log WarnLevel])
               | (None, tr1) \<Rightarrow> dockerLogout w registries (tr1 @ [Log InfoLevel])))"

subsection \<open>Secret files\<close>

text \<open>The callback that \<open>sopsDecrypt\<close> gives to \<open>filepath.WalkDir\<close>, over the visits of one
  walk; it returns \<open>nil\<close> at every visit, so the walk is never cut short.\<close>

fun walkFn :: "visit list \<Rightarrow> string list \<Rightarrow> event list \<Rightarrow> string list \<times> event list" where
  "walkFn [] sopsFilePaths tr = (sopsFilePaths, tr)"
| "walkFn (VisitErr path err # vs) sopsFilePaths tr = walkFn vs sopsFilePaths (tr @ [Log WarnLevel])"
| "walkFn (VisitEntry path file # vs) sopsFilePaths tr =
     (if \<not> DirEntry_IsDir file then
        (if filepath_Match ''*.sops.*'' (DirEntry_Name path)
         then walkFn vs (sopsFilePaths @ [path]) (tr @ [Log InfoLevel])
         else walkFn vs sopsFilePaths tr)
      else walkFn vs sopsFilePaths tr)"

fun walkRoots ::
  "world \<Rightarrow> string list \<Rightarrow> string list \<Rightarrow> event list \<Rightarrow> string list \<times> event list" where
  "walkRoots w [] sopsFilePaths tr = (sopsFilePaths, tr)"
| "walkRoots w (rootFolderPath # roots) sopsFilePaths tr =
     (let tr1 = tr @ [Log InfoLevel];
          visits = walkDir w tr1 rootFolderPath
      in case walkFn visits sopsFilePaths (tr1 @ [WalkDir rootFolderPath visits]) of
           (sopsFilePaths1, tr2) \<Rightarrow> walkRoots w roots sopsFilePaths1 tr2)"

definition decryptArgs :: "string \<Rightarrow> string list" where
  "decryptArgs sopsFilePath =
     (let sopsFileName = filepath_Base sopsFilePath;
          outputFileName = strings_ReplaceAll sopsFileName ''.sops.'' ''.''
      in [''--output'', outputFileName, ''--decrypt'', sopsFileName])"

fun decryptLoop ::
  "world \<Rightarrow> string \<Rightarrow> string list option \<Rightarrow> string list \<Rightarrow> event list
     \<Rightarrow> error option \<times> event list" where
  "decryptLoop w command env [] tr = (None, tr)"
| "decryptLoop w command env (sopsFilePath # rest) tr =
     (case runCommandAndCaptureStdErr w command (decryptArgs sopsFilePath) env
             (filepath_Dir sopsFilePath) tr of
        (Some err, tr1) \<Rightarrow> (Some err, tr1 @ [Log WarnLevel])
      | (None, tr1) \<Rightarrow> decryptLoop w command env rest tr1)"

definition sopsDecrypt ::
  "world \<Rightarrow> string list \<Rightarrow> string list option \<Rightarrow> event list \<Rightarrow> error option \<times> event list" where
  "sopsDecrypt w composeFilePaths env tr =
     (case walkRoots w (findRootPaths composeFilePaths) [] tr of
        (sopsFilePaths, tr1) \<Rightarrow> decryptLoop w (getSopsBinaryPath w) env sopsFilePaths tr1)"

section \<open>The deploy commands\<close>

text \<open>
  The block \<open>if !cmd.Keep { ... }\<close> is the same in every \<open>Run\<close> of deploy.go and of its
  second version (src/unnamed/part\_001) but for the options of the clone, which are a
  parameter here. \<open>stackCreate\<close> is the inside of the block: the directory is looked up,
  removed when it is there, created again, and the repository is cloned into it.
  \<open>fromWorkspace\<close> is the block followed by the rest of the function, which runs unless the
  block has returned.
\<close>

definition stackCreate ::
  "world \<Rightarrow> CloneOptions \<Rightarrow> string \<Rightarrow> string \<Rightarrow> event list \<Rightarrow> error option \<times> event list" where
  "stackCreate w gitOptions mountPath clonePath tr =
     (let st = osStat w tr mountPath;
          tr1 = tr @ [OsStat mountPath st];
          rm = (if st = None then osRemoveAll w tr1 mountPath else None);
          tr2 = (if st = None then tr1 @ [OsRemoveAll mountPath rm] else tr1)
      in if rm \<noteq> None then (Some errDeployComposeFailure, tr2 @ [Log ErrorLevel])
         else
           let mk = osMkdirAll w tr2 mountPath 493;
               tr3 = tr2 @ [OsMkdirAll mountPath 493 mk]
           in if mk \<noteq> None then (Some errDeployComposeFailure, tr3 @ [Log ErrorLevel])
              else
                let tr4 = tr3 @ [Log InfoLevel, Log InfoLevel];
                    cl = gitPlainCloneContext w tr4 clonePath False gitOptions;
                    tr5 = tr4 @ [PlainCloneContext clonePath False gitOptions cl]
                in if cl \<noteq> None then (Some errDeployComposeFailure, tr5 @ [Log ErrorLevel])
                   else (None, tr5))"

definition fromWorkspace ::
  "world \<Rightarrow> DeployCommand \<Rightarrow> CloneOptions \<Rightarrow> string \<Rightarrow> string
     \<Rightarrow> (event list \<Rightarrow> error option \<times> event list) \<Rightarrow> event list
     \<Rightarrow> error option \<times> event list" where
  "fromWorkspace w cmd gitOptions mountPath clonePath rest tr =
     (if \<not> Keep cmd then
        (case stackCreate w gitOptions mountPath clonePath tr of
           (Some err, tr1) \<Rightarrow> (Some err, tr1)
         | (None, tr1) \<Rightarrow> rest tr1)
      else rest tr)"

definition gitCloneOptions :: "DeployCommand \<Rightarrow> int \<Rightarrow> TagMode \<Rightarrow> CloneOptions" where
  "gitCloneOptions cmd depth tags =
     \<lparr>URL = GitRepository cmd, ReferenceName = Reference cmd,
      Auth = getAuth (User cmd) (Password cmd), Depth = depth,
      InsecureSkipTLS = SkipTLSVerify cmd, Tags = tags\<rparr>"

definition repositoryNameOf :: "DeployCommand \<Rightarrow> int \<Rightarrow> string" where
  "repositoryNameOf cmd i = strings_TrimSuffix (drop (nat (i + 1)) (GitRepository cmd)) ''.git''"

definition composeFilePathsOf :: "DeployCommand \<Rightarrow> string \<Rightarrow> string list" where
  "composeFilePathsOf cmd clonePath =
     map (\<lambda>p. filepath_Join [clonePath, p]) (ComposeRelativeFilePaths cmd)"

subsection \<open>\<open>DeployCommand.Run\<close> of deploy.go\<close>

text \<open>From the creation of the compose deployer to the end of the function.\<close>

definition deployCompose ::
  "world \<Rightarrow> DeployCommand \<Rightarrow> string \<Rightarrow> event list \<Rightarrow> error option \<times> event list" where
  "deployCompose w cmd clonePath tr =
     (let nd = newComposeDeployer w tr [BIN_PATH w, PORTAINER_DOCKER_CONFIG_PATH w];
          tr1 = tr @ [NewComposeDeployer [BIN_PATH w, PORTAINER_DOCKER_CONFIG_PATH w] nd]
      in if nd \<noteq> None then (Some errDeployComposeFailure, tr1 @ [Log ErrorLevel])
         else
           let composeFilePaths = composeFilePathsOf cmd clonePath
           in case sopsDecrypt w composeFilePaths (Env cmd) tr1 of
                (Some err, tr2) \<Rightarrow> (Some errDeployComposeFailure, tr2 @ [Log ErrorLevel])
              | (None, tr2) \<Rightarrow>
                  let tr3 = tr2 @ [Log InfoLevel];
                      opts = \<lparr>opt_WorkingDir = clonePath, opt_ProjectName = ProjectName cmd,
                              opt_Env = Env cmd, opt_Registries = [],
                              opt_ForceRecreate = True, opt_RemoveOrphans = False\<rparr>;
                      d = deployerDeploy w tr3 composeFilePaths opts;
                      tr4 = tr3 @ [Deploy composeFilePaths opts d]
                  in if d \<noteq> None then (Some errDeployComposeFailure, tr4 @ [Log ErrorLevel])
                     else (None, tr4 @ [Log InfoLevel]))"

text \<open>The function up to its \<open>return\<close>; the deferred logout follows in \<open>DeployCommand_Run\<close>.\<close>

definition DeployCommand_body ::
  "world \<Rightarrow> DeployCommand \<Rightarrow> event list \<Rightarrow> error option \<times> event list" where
  "DeployCommand_body w cmd tr =
     (case dockerLogin w (Registry cmd) (tr @ [Log InfoLevel]) of
        (Some err, tr1) \<Rightarrow> (Some err, tr1)
      | (None, tr1) \<Rightarrow>
          let tr2 = (if User cmd \<noteq> [] \<and> Password cmd \<noteq> [] then tr1 @ [Log InfoLevel] else tr1);
              i = strings_LastIndex (GitRepository cmd) (CHR ''/'')
          in if i = - 1 then (Some errDeployComposeFailure, tr2 @ [Log ErrorLevel])
             else
               let repositoryName = repositoryNameOf cmd i;
                   tr3 = tr2 @ [Log InfoLevel];
                   mountPath = makeWorkingDir (Destination cmd) (ProjectName cmd);
                   clonePath = filepath_Join [mountPath, repositoryName]
               in fromWorkspace w cmd (gitCloneOptions cmd 1 InvalidTagMode) mountPath clonePath
                    (deployCompose w cmd clonePath) tr3)"

definition DeployCommand_Run ::
  "world \<Rightarrow> DeployCommand \<Rightarrow> event list \<Rightarrow> error option \<times> event list" where
  "DeployCommand_Run w cmd tr =
     (case DeployCommand_body w cmd tr of
        (res, tr1) \<Rightarrow> (res, snd (dockerLogout w (Registry cmd) tr1)))"

subsection \<open>\<open>SwarmDeployCommand.Run\<close> of deploy.go\<close>

text \<open>The loop over the services that run after the deployment; the result of
  \<open>updateService\<close> is dropped. \<open>flag\<close> is the second argument that the second version
  passes (\<open>None\<close> in deploy.go, whose \<open>updateService\<close> has one parameter).\<close>

fun updateLoop ::
  "world \<Rightarrow> string set \<Rightarrow> bool option \<Rightarrow> string list \<Rightarrow> event list \<Rightarrow> event list" where
  "updateLoop w runningServices flag [] tr = tr"
| "updateLoop w runningServices flag (updatedServiceID # ids) tr =
     (if updatedServiceID \<in> runningServices
      then updateLoop w runningServices flag ids
             (tr @ [UpdateService updatedServiceID flag (updateService w tr updatedServiceID flag)])
      else updateLoop w runningServices flag ids tr)"

text \<open>The block \<open>if forceUpdate { ... }\<close> and the final \<open>return nil\<close>.\<close>

definition forceUpdateServices ::
  "world \<Rightarrow> DeployCommand \<Rightarrow> bool \<Rightarrow> string set \<Rightarrow> bool option \<Rightarrow> event list
     \<Rightarrow> error option \<times> event list" where
  "forceUpdateServices w cmd forceUpdate runningServices flag tr =
     (if forceUpdate then
        (let q = checkRunningService w tr (ProjectName cmd);
             tr1 = tr @ [CheckRunningService (ProjectName cmd) q]
         in case q of
              Inl err \<Rightarrow> (Some err, tr1)
            | Inr updatedServiceIDs \<Rightarrow>
                (None, updateLoop w runningServices flag updatedServiceIDs tr1))
      else (None, tr))"

text \<open>From the call of \<open>deploySwarmStack\<close> to the end of the function.\<close>

definition swarmStack ::
  "world \<Rightarrow> DeployCommand \<Rightarrow> string \<Rightarrow> bool \<Rightarrow> string set \<Rightarrow> bool option \<Rightarrow> event list
     \<Rightarrow> error option \<times> event list" where
  "swarmStack w cmd clonePath forceUpdate runningServices flag tr =
     (let d = deploySwarmStack w tr cmd clonePath;
          tr1 = tr @ [DeploySwarmStack cmd clonePath d]
      in case d of
           Some err \<Rightarrow> (Some err, tr1)
         | None \<Rightarrow> forceUpdateServices w cmd forceUpdate runningServices flag tr1)"

text \<open>From the call of \<open>sopsDecrypt\<close> to the end of the function.\<close>

definition swarmSecrets ::
  "world \<Rightarrow> DeployCommand \<Rightarrow> string \<Rightarrow> bool \<Rightarrow> string set \<Rightarrow> event list
     \<Rightarrow> error option \<times> event list" where
  "swarmSecrets w cmd clonePath forceUpdate runningServices tr =
     (case sopsDecrypt w (composeFilePathsOf cmd clonePath) (Env cmd) tr of
        (Some err, tr1) \<Rightarrow> (Some errDeployComposeFailure, tr1 @ [Log ErrorLevel])
      | (None, tr1) \<Rightarrow> swarmStack w cmd clonePath forceUpdate runningServices None tr1)"

text \<open>From the query for the running services to the end of the function. The map
  \<open>runningServices\<close> is used as a set: its length is positive when it is not empty.\<close>

definition swarmDeploy ::
  "world \<Rightarrow> DeployCommand \<Rightarrow> string \<Rightarrow> string \<Rightarrow> event list \<Rightarrow> error option \<times> event list" where
  "swarmDeploy w cmd mountPath clonePath tr =
     (let q = checkRunningService w tr (ProjectName cmd);
          tr1 = tr @ [CheckRunningService (ProjectName cmd) q]
      in case q of
           Inl err \<Rightarrow> (Some err, tr1)
         | Inr serviceIDs \<Rightarrow>
             let runningServices = set serviceIDs;
                 forceUpdate = (runningServices \<noteq> {});
                 tr2 = (if forceUpdate then tr1 @ [Log InfoLevel] else tr1)
             in fromWorkspace w cmd (gitCloneOptions cmd 100 InvalidTagMode) mountPath clonePath
                  (swarmSecrets w cmd clonePath forceUpdate runningServices) tr2)"

text \<open>The function up to its \<open>return\<close>; the deferred logout follows in
  \<open>SwarmDeployCommand_Run\<close>.\<close>

definition SwarmDeployCommand_body ::
  "world \<Rightarrow> DeployCommand \<Rightarrow> event list \<Rightarrow> error option \<times> event list" where
  "SwarmDeployCommand_body w cmd tr =
     (case dockerLogin w (Registry cmd) (tr @ [Log InfoLevel]) of
        (Some err, tr1) \<Rightarrow> (Some err, tr1)
      | (None, tr1) \<Rightarrow>
          let tr2 = (if User cmd \<noteq> [] \<and> Password cmd \<noteq> [] then tr1 @ [Log InfoLevel] else tr1);
              i = strings_LastIndex (GitRepository cmd) (CHR ''/'')
          in if i = - 1 then (Some errDeployComposeFailure, tr2 @ [Log ErrorLevel])
             else
               let repositoryName = repositoryNameOf cmd i;
                   tr3 = tr2 @ [Log InfoLevel];
                   mountPath = makeWorkingDir (Destination cmd) (ProjectName cmd);
                   clonePath = filepath_Join [mountPath, repositoryName]
               in swarmDeploy w cmd mountPath clonePath tr3)"

definition SwarmDeployCommand_Run ::
  "world \<Rightarrow> DeployCommand \<Rightarrow> event list \<Rightarrow> error option \<times> event list" where
  "SwarmDeployCommand_Run w cmd tr =
     (case SwarmDeployCommand_body w cmd tr of
        (res, tr1) \<Rightarrow> (res, snd (dockerLogout w (Registry cmd) tr1)))"

subsection \<open>The second version of the deploy commands (src/unnamed/part\_001)\<close>

text \<open>
  The second version of the file has no secret decryption. Its \<open>DeployCommand.Run\<close> logs in to
  no registry itself: it turns the credential strings into \<open>types.AuthConfig\<close> values for the
  compose library and passes the flags of the command on. Its \<open>SwarmDeployCommand.Run\<close>
  asks for \<open>cmd.ForceRecreateStack\<close> before it forces an update, and defers the logout after
  the login has returned \<open>nil\<close>.
\<close>

fun authConfigs :: "string list \<Rightarrow> AuthConfig list \<Rightarrow> event list \<Rightarrow> AuthConfig list \<times> event list" where
  "authConfigs [] registries tr = (registries, tr)"
| "authConfigs (r # rs) registries tr =
     (let credentials = strings_Split r (CHR '':'')
      in if length credentials \<noteq> 3 then authConfigs rs registries (tr @ [Log WarnLevel])
         else authConfigs rs
                (registries @ [AuthConfig (credentials ! 0) (credentials ! 1) (credentials ! 2)]) tr)"

text \<open>From the creation of the compose deployer to the end of the function.\<close>

definition deployCompose_v2 ::
  "world \<Rightarrow> DeployCommand \<Rightarrow> string \<Rightarrow> event list \<Rightarrow> error option \<times> event list" where
  "deployCompose_v2 w cmd clonePath tr =
     (let tr1 = tr @ [NewComposeDeployer [] None];
          composeFilePaths = composeFilePathsOf cmd clonePath;
          tr2 = tr1 @ [Log InfoLevel]
      in case authConfigs (Registry cmd) [] tr2 of
           (registries, tr3) \<Rightarrow>
             let opts = \<lparr>opt_WorkingDir = clonePath, opt_ProjectName = ProjectName cmd,
                         opt_Env = Env cmd, opt_Registries = registries,
                         opt_ForceRecreate = ForceRecreateStack cmd,
                         opt_RemoveOrphans = Prune cmd\<rparr>;
                 d = deployerDeploy w tr3 composeFilePaths opts;
                 tr4 = tr3 @ [Deploy composeFilePaths opts d]
             in if d \<noteq> None then (Some errDeployComposeFailure, tr4 @ [Log ErrorLevel])
                else (None, tr4 @ [Log InfoLevel]))"

definition DeployCommand_Run_v2 ::
  "world \<Rightarrow> DeployCommand \<Rightarrow> event list \<Rightarrow> error option \<times> event list" where
  "DeployCommand_Run_v2 w cmd tr =
     (let tr1 = tr @ [Log InfoLevel];
          tr2 = (if User cmd \<noteq> [] \<and> Password cmd \<noteq> [] then tr1 @ [Log InfoLevel] else tr1);
          i = strings_LastIndex (GitRepository cmd) (CHR ''/'')
      in if i = - 1 then (Some errDeployComposeFailure, tr2 @ [Log ErrorLevel])
         else
           let repositoryName = repositoryNameOf cmd i;
               tr3 = tr2 @ [Log InfoLevel];
               mountPath = makeWorkingDir (Destination cmd) (ProjectName cmd);
               clonePath = filepath_Join [mountPath, repositoryName]
           in fromWorkspace w cmd (gitCloneOptions cmd 1 NoTags) mountPath clonePath
                (deployCompose_v2 w cmd clonePath) tr3)"

text \<open>From the query for the running services to the end of the function.\<close>

definition swarmDeploy_v2 ::
  "world \<Rightarrow> DeployCommand \<Rightarrow> string \<Rightarrow> string \<Rightarrow> event list \<Rightarrow> error option \<times> event list" where
  "swarmDeploy_v2 w cmd mountPath clonePath tr =
     (let q = checkRunningService w tr (ProjectName cmd);
          tr1 = tr @ [CheckRunningService (ProjectName cmd) q]
      in case q of
           Inl err \<Rightarrow> (Some err, tr1)
         | Inr serviceIDs \<Rightarrow>
             let runningServices = set serviceIDs;
                 forceUpdate = (ForceRecreateStack cmd \<and> runningServices \<noteq> {});
                 tr2 = (if forceUpdate then tr1 @ [Log InfoLevel] else tr1)
             in fromWorkspace w cmd (gitCloneOptions cmd 1 NoTags) mountPath clonePath
                  (swarmStack w cmd clonePath forceUpdate runningServices (Some forceUpdate)) tr2)"

text \<open>After the login and the \<open>defer\<close>, up to the \<open>return\<close>.\<close>

definition SwarmDeployCommand_body_v2 ::
  "world \<Rightarrow> DeployCommand \<Rightarrow> event list \<Rightarrow> error option \<times> event list" where
  "SwarmDeployCommand_body_v2 w cmd tr1 =
     (let tr2 = (if User cmd \<noteq> [] \<and> Password cmd \<noteq> [] then tr1 @ [Log InfoLevel] else tr1);
          i = strings_LastIndex (GitRepository cmd) (CHR ''/'')
      in if i = - 1 then (Some errDeployComposeFailure, tr2 @ [Log ErrorLevel])
         else
           let repositoryName = repositoryNameOf cmd i;
               tr3 = tr2 @ [Log InfoLevel];
               mountPath = makeWorkingDir (Destination cmd) (ProjectName cmd);
               clonePath = filepath_Join [mountPath, repositoryName]
           in swarmDeploy_v2 w cmd mountPath clonePath tr3)"

definition SwarmDeployCommand_Run_v2 ::
  "world \<Rightarrow> DeployCommand \<Rightarrow> event list \<Rightarrow> error option \<times> event list" where
  "SwarmDeployCommand_Run_v2 w cmd tr =
     (case dockerLogin w (Registry cmd) (tr @ [Log InfoLevel]) of
        (Some err, tr1) \<Rightarrow>
          (Some (fmt_Errorf ''an error occured in swarm docker login. Error: '' err), tr1)
      | (None, tr1) \<Rightarrow>
          (case SwarmDeployCommand_body_v2 w cmd tr1 of
             (res, tr2) \<Rightarrow> (res, snd (dockerLogout w (Registry cmd) tr2))))"

section \<open>The undeploy commands (undeploy.go)\<close>

definition UndeployCommand_Run ::
  "world \<Rightarrow> DeployCommand \<Rightarrow> event list \<Rightarrow> error option \<times> event list" where
  "UndeployCommand_Run w cmd tr =
     (let tr1 = tr @ [Log InfoLevel]
      in if strings_LastIndex (GitRepository cmd) (CHR ''/'') = - 1
         then (Some errDeployComposeFailure, tr1 @ [Log ErrorLevel])
         else
           let mountPath = makeWorkingDir (Destination cmd) (ProjectName cmd);
               tr2 = tr1 @ [NewComposeDeployer [] None, Log DebugLevel];
               rm = deployerRemove w tr2 (ProjectName cmd);
               tr3 = tr2 @ [Remove (ProjectName cmd) rm]
           in if rm \<noteq> None then (Some errDeployComposeFailure, tr3 @ [Log ErrorLevel])
              else
                let tr4 = tr3 @ [Log InfoLevel]
                in if \<not> Keep cmd then
                     (let ra = osRemoveAll w tr4 mountPath;
                          tr5 = tr4 @ [OsRemoveAll mountPath ra]
                      in (None, if ra \<noteq> None then tr5 @ [Log ErrorLevel] else tr5))
                   else (None, tr4))"

definition SwarmUndeployCommand_Run ::
  "world \<Rightarrow> DeployCommand \<Rightarrow> event list \<Rightarrow> error option \<times> event list" where
  "SwarmUndeployCommand_Run w cmd tr =
     (let tr1 = tr @ [Log InfoLevel];
          command = (if GOOS w = ''windows'' then filepath_Join [BIN_PATH w, ''docker.exe'']
                     else filepath_Join [BIN_PATH w, ''docker'']);
          args = [''stack'', ''rm'', ProjectName cmd]
      in case runCommandAndCaptureStdErr w command args None [] tr1 of
           (Some err, tr2) \<Rightarrow> (Some err, tr2)
         | (None, tr2) \<Rightarrow>
             let mountPath = makeWorkingDir (Destination cmd) (ProjectName cmd)
             in if \<not> Keep cmd then
                  (let ra = osRemoveAll w tr2 mountPath;
                       tr3 = tr2 @ [OsRemoveAll mountPath ra]
                   in (None, if ra \<noteq> None then tr3 @ [Log ErrorLevel] else tr3))
                else (None, tr2))"

section \<open>Auxiliary notions for the statements\<close>

text \<open>The relation between two folders that follow each other in the result of the
  reduction: the second is greater and does not start with the first.\<close>

definition keeps :: "string \<Rightarrow> string \<Rightarrow> bool" where
  "keeps a b = (a < b \<and> \<not> prefix a b)"

text \<open>The commands that a piece of trace ran: program, arguments and directory.\<close>

fun callOf :: "event \<Rightarrow> (string \<times> string list \<times> string) list" where
  "callOf (CmdRun c a e d r) = [(c, a, d)]"
| "callOf _ = []"

definition calls :: "event list \<Rightarrow> (string \<times> string list \<times> string) list" where
  "calls tr = concat (map callOf tr)"

fun failedRun :: "event \<Rightarrow> bool" where
  "failedRun (CmdRun c a e d (Some stderr)) = True"
| "failedRun _ = False"

text \<open>The test of \<open>dockerLogin\<close> and \<open>dockerLogout\<close> on a credential string.\<close>

definition threeSegments :: "string \<Rightarrow> bool" where
  "threeSegments registry = (length (strings_Split registry (CHR '':'')) = 3)"

definition loginCall :: "world \<Rightarrow> string \<Rightarrow> string \<times> string list \<times> string" where
  "loginCall w registry =
     (getDockerBinaryPath w, loginArgs w (strings_Split registry (CHR '':'')), [])"

definition logoutCall :: "world \<Rightarrow> string \<Rightarrow> string \<times> string list \<times> string" where
  "logoutCall w registry =
     (getDockerBinaryPath w, logoutArgs w (strings_Split registry (CHR '':'')), [])"

text \<open>
  The pieces of a string between the occurrences of a non-empty separator that a scan from
  the left finds, as \<open>strings.Split\<close> cuts them.
\<close>

function piecesOf :: "string \<Rightarrow> string \<Rightarrow> string list" where
  "piecesOf s old =
     (if s = [] then [[]]
      else if old \<noteq> [] \<and> prefix old s then [] # piecesOf (drop (length old) s) old
      else (case piecesOf (tl s) old of [] \<Rightarrow> [[hd s]] | p # ps \<Rightarrow> (hd s # p) # ps))"
  by pat_completeness auto
termination
  by (relation "measure (\<lambda>(s, old). length s)") auto

declare piecesOf.simps [simp del]

text \<open>The visits that the walks of a piece of trace made, and those among them that are
  entries of another type than directory with \<open>*.sops.*\<close> matching the last element of
  their path.\<close>

fun walkedOf :: "event \<Rightarrow> visit list" where
  "walkedOf (WalkDir root visits) = visits"
| "walkedOf _ = []"

definition walked :: "event list \<Rightarrow> visit list" where
  "walked tr = concat (map walkedOf tr)"

fun isSops :: "visit \<Rightarrow> bool" where
  "isSops (VisitEntry path file)
     = (file \<noteq> Directory \<and> filepath_Match ''*.sops.*'' (filepath_Base path))"
| "isSops (VisitErr path err) = False"

fun visitPath :: "visit \<Rightarrow> string" where
  "visitPath (VisitEntry path file) = path"
| "visitPath (VisitErr path err) = path"

definition sopsPaths :: "visit list \<Rightarrow> string list" where
  "sopsPaths vs = map visitPath (filter isSops vs)"

definition decryptCall :: "world \<Rightarrow> string \<Rightarrow> string \<times> string list \<times> string" where
  "decryptCall w sopsFilePath =
     (getSopsBinaryPath w, decryptArgs sopsFilePath, filepath_Dir sopsFilePath)"

text \<open>The kind of an event, to say which calls a step can make.\<close>

datatype kind =
    LogK | CmdRunK | OsStatK | OsRemoveAllK | OsMkdirAllK | PlainCloneContextK
  | NewComposeDeployerK | DeployK | RemoveK | WalkDirK | CheckRunningServiceK
  | DeploySwarmStackK | UpdateServiceK

fun kindOf :: "event \<Rightarrow> kind" where
  "kindOf (Log l) = LogK"
| "kindOf (CmdRun c a e d r) = CmdRunK"
| "kindOf (OsStat p r) = OsStatK"
| "kindOf (OsRemoveAll p r) = OsRemoveAllK"
| "kindOf (OsMkdirAll p m r) = OsMkdirAllK"
| "kindOf (PlainCloneContext p b opts r) = PlainCloneContextK"
| "kindOf (NewComposeDeployer a r) = NewComposeDeployerK"
| "kindOf (Deploy fs opts r) = DeployK"
| "kindOf (Remove p r) = RemoveK"
| "kindOf (WalkDir root vs) = WalkDirK"
| "kindOf (CheckRunningService p r) = CheckRunningServiceK"
| "kindOf (DeploySwarmStack c p r) = DeploySwarmStackK"
| "kindOf (UpdateService i f r) = UpdateServiceK"

definition kinds :: "event list \<Rightarrow> kind set" where
  "kinds tr = kindOf ` set tr"

text \<open>What a piece of trace holds of the calls that the statements are about: the answers to
  the queries for running services, the services for which an update was forced, the results
  of the swarm deployments and the options of the compose deployments.\<close>

fun queryOf :: "event \<Rightarrow> (error + string list) list" where
  "queryOf (CheckRunningService p r) = [r]"
| "queryOf _ = []"

definition queries :: "event list \<Rightarrow> (error + string list) list" where
  "queries tr = concat (map queryOf tr)"

fun updateOf :: "event \<Rightarrow> string list" where
  "updateOf (UpdateService i f r) = [i]"
| "updateOf _ = []"

definition updates :: "event list \<Rightarrow> string list" where
  "updates tr = concat (map updateOf tr)"

fun swarmDeployOf :: "event \<Rightarrow> error option list" where
  "swarmDeployOf (DeploySwarmStack c p r) = [r]"
| "swarmDeployOf _ = []"

definition swarmDeploys :: "event list \<Rightarrow> error option list" where
  "swarmDeploys tr = concat (map swarmDeployOf tr)"

fun deployOptsOf :: "event \<Rightarrow> DeployOptions list" where
  "deployOptsOf (Deploy fs opts r) = [opts]"
| "deployOptsOf _ = []"

definition deployOpts :: "event list \<Rightarrow> DeployOptions list" where
  "deployOpts tr = concat (map deployOptsOf tr)"

text \<open>The forced updates that follow from the answers to the queries of a run: with two
  answers that are lists of services, the services of the second that are in the first.\<close>

fun forcedOf :: "(error + string list) list \<Rightarrow> string list" where
  "forcedOf [Inr pre, Inr post] = filter (\<lambda>i. i \<in> set pre) post"
| "forcedOf _ = []"

text \<open>The first answer of a run says that a service was running.\<close>

fun wasRunning :: "(error + string list) list \<Rightarrow> bool" where
  "wasRunning (Inr pre # qs) = (pre \<noteq> [])"
| "wasRunning _ = False"

text \<open>
  Two summaries of the queries, forced updates and swarm deployments of a piece of trace,
  used on the way to the statements. \<open>tailFacts\<close> is about the end of a swarm deployment, from
  \<open>deploySwarmStack\<close> on: at most one query, made when the deployment succeeded and an update
  is to be forced; the updates are the services of its answer that ran before; an error that
  is returned is the generic one, the error of a query or the error of the deployment.
  \<open>runFacts\<close> is the same about a whole run, whose first query comes before the deployment.
\<close>

definition tailFacts ::
  "bool \<Rightarrow> string set \<Rightarrow> error option \<Rightarrow> (error + string list) list \<Rightarrow> string list
     \<Rightarrow> error option list \<Rightarrow> bool" where
  "tailFacts fu rs res qs us sds \<longleftrightarrow>
     length qs \<le> 1
     \<and> us = (case qs of [Inr post] \<Rightarrow> filter (\<lambda>i. i \<in> rs) post | _ \<Rightarrow> [])
     \<and> (qs \<noteq> [] \<longleftrightarrow> None \<in> set sds \<and> fu)
     \<and> (\<forall>e. res = Some e \<longrightarrow> e = errDeployComposeFailure \<or> Inl e \<in> set qs \<or> Some e \<in> set sds)"

definition runFacts ::
  "bool \<Rightarrow> error option \<Rightarrow> (error + string list) list \<Rightarrow> string list
     \<Rightarrow> error option list \<Rightarrow> bool" where
  "runFacts asked res qs us sds \<longleftrightarrow>
     us = forcedOf qs
     \<and> (length qs = 2 \<longleftrightarrow> None \<in> set sds \<and> asked \<and> wasRunning qs)
     \<and> (\<forall>e. res = Some e \<longrightarrow> e = errDeployComposeFailure \<or> Inl e \<in> set qs \<or> Some e \<in> set sds)"

text \<open>The calls that look up, remove or create the workspace directory or clone into it.\<close>

definition setupKinds :: "kind set" where
  "setupKinds = {OsStatK, OsRemoveAllK, OsMkdirAllK, PlainCloneContextK}"

text \<open>
  An event writes into a directory when it removes or creates a path that lies within it,
  clones into such a path, or runs a command with an \<open>--output\<close> file (the decrypt tool) in
  such a path.
\<close>

fun writesInto :: "string \<Rightarrow> event \<Rightarrow> bool" where
  "writesInto dir (OsRemoveAll p r) = pathWithin dir p"
| "writesInto dir (OsMkdirAll p m r) = pathWithin dir p"
| "writesInto dir (PlainCloneContext p b opts r) = pathWithin dir p"
| "writesInto dir (CmdRun c a e d r) = (take 1 a = [''--output''] \<and> pathWithin dir d)"
| "writesInto dir _ = False"

text \<open>
  The failures that end a deploy run, with the error that the run returns for each: the
  generic error when the workspace cannot be removed or created, when the clone, the
  creation of the compose deployer or the compose deployment fails, and when a command with
  an \<open>--output\<close> file (the decrypt tool) fails; the error itself when a query for the running
  services or the swarm deployment fails. A failed lookup of the workspace, a failed login
  or logout command and a failed update of a service end nothing.
\<close>

fun deployFailure :: "event \<Rightarrow> error option" where
  "deployFailure (OsRemoveAll p (Some err)) = Some errDeployComposeFailure"
| "deployFailure (OsMkdirAll p m (Some err)) = Some errDeployComposeFailure"
| "deployFailure (PlainCloneContext p b opts (Some err)) = Some errDeployComposeFailure"
| "deployFailure (NewComposeDeployer a (Some err)) = Some errDeployComposeFailure"
| "deployFailure (Deploy fs opts (Some err)) = Some errDeployComposeFailure"
| "deployFailure (CmdRun c a e d (Some stderr))
     = (if take 1 a = [''--output''] then Some errDeployComposeFailure else None)"
| "deployFailure (CheckRunningService p (Inl err)) = Some err"
| "deployFailure (DeploySwarmStack c p (Some err)) = Some err"
| "deployFailure _ = None"

text \<open>
  The failures that end an undeploy run: the generic error when the compose library cannot
  remove the stack, and an error made of the text on stderr when a command (\<open>docker stack rm\<close>)
  fails. A workspace that cannot be removed ends nothing.
\<close>

fun undeployFailure :: "event \<Rightarrow> error option" where
  "undeployFailure (Remove p (Some err)) = Some errDeployComposeFailure"
| "undeployFailure (CmdRun c a e d (Some stderr)) = Some (errors_New stderr)"
| "undeployFailure _ = None"

text \<open>The error of the first event of a piece of trace that is such a failure.\<close>

fun firstFailure :: "(event \<Rightarrow> error option) \<Rightarrow> event list \<Rightarrow> error option" where
  "firstFailure f [] = None"
| "firstFailure f (e # tr) = (case f e of Some err \<Rightarrow> Some err | None \<Rightarrow> firstFailure f tr)"

text \<open>A step of a deploy run is accounted for when, from every trace, the error that it
  returns is the first failure among the events that it adds.\<close>

definition accounted :: "(event list \<Rightarrow> error option \<times> event list) \<Rightarrow> bool" where
  "accounted stage \<longleftrightarrow> (\<forall>t. \<exists>d. stage t = (firstFailure deployFailure d, t @ d))"

section \<open>Concrete worlds and commands\<close>

text \<open>A world in which every call succeeds, no directory has entries and no service runs.\<close>

definition quietWorld :: world where
  "quietWorld =
     \<lparr>BIN_PATH = ''/app'', PORTAINER_DOCKER_CONFIG_PATH = ''/config'', GOOS = ''linux'',
      osEnviron = [],
      cmdRun = (\<lambda>tr c a e d. None),
      osStat = (\<lambda>tr p. None),
      osRemoveAll = (\<lambda>tr p. None),
      osMkdirAll = (\<lambda>tr p m. None),
      gitPlainCloneContext = (\<lambda>tr p b opts. None),
      newComposeDeployer = (\<lambda>tr a. None),
      deployerDeploy = (\<lambda>tr fs opts. None),
      deployerRemove = (\<lambda>tr p. None),
      walkDir = (\<lambda>tr root. []),
      checkRunningService = (\<lambda>tr p. Inr []),
      deploySwarmStack = (\<lambda>tr c p. None),
      updateService = (\<lambda>tr i f. None)\<rparr>"

text \<open>The same world with one secret file, one plain file and one unreadable entry in every
  directory that is walked.\<close>

definition secretsWorld :: world where
  "secretsWorld = quietWorld
     \<lparr>walkDir := (\<lambda>tr root.
         [VisitEntry root Directory,
          VisitEntry (root @ ''/app.sops.yml'') RegularFile,
          VisitEntry (root @ ''/docker-compose.yml'') RegularFile,
          VisitErr (root @ ''/locked'') ''permission denied''])\<rparr>"

text \<open>The quiet world with a symbolic link \<open>shared.sops.env\<close> in every directory that is
  walked.\<close>

definition linkWorld :: world where
  "linkWorld = quietWorld
     \<lparr>walkDir := (\<lambda>tr root.
         [VisitEntry root Directory,
          VisitEntry (root @ ''/shared.sops.env'') Symlink])\<rparr>"

text \<open>The deploy request of the specification's scenario: project \<open>billing\<close>.\<close>

definition billing :: DeployCommand where
  "billing =
     \<lparr>User = [], Password = [], Keep = False, SkipTLSVerify = False, Env = None,
      Registry = [''user:secret:registry.example.com'', ''broken''],
      GitRepository = ''https://example.com/org/billing-stack.git'',
      Reference = ''refs/heads/main'', ProjectName = ''billing'', Destination = ''/data'',
      ComposeRelativeFilePaths = [''docker-compose.yml''],
      ForceRecreateStack = False, Prune = False\<rparr>"

text \<open>The same request with \<open>keep\<close> set, with \<open>forceRecreate\<close> and \<open>prune\<close> set, and with
  a repository URL that has no \<open>/\<close>.\<close>

definition keptBilling :: DeployCommand where
  "keptBilling = billing\<lparr>Keep := True\<rparr>"

definition forcedBilling :: DeployCommand where
  "forcedBilling = billing\<lparr>ForceRecreateStack := True, Prune := True\<rparr>"

definition strayBilling :: DeployCommand where
  "strayBilling = billing\<lparr>GitRepository := ''billing-stack.git''\<rparr>"

text \<open>A world in which \<open>svc1\<close> and \<open>svc2\<close> run at the first query and \<open>svc2\<close> and \<open>svc3\<close> at
  every later one.\<close>

definition servicesWorld :: world where
  "servicesWorld = quietWorld
     \<lparr>checkRunningService := (\<lambda>tr p.
         if CheckRunningServiceK \<in> kinds tr then Inr [''svc2'', ''svc3'']
         else Inr [''svc1'', ''svc2''])\<rparr>"

text \<open>A world in which every command fails and writes \<open>no such stack\<close> to stderr.\<close>

definition failingWorld :: world where
  "failingWorld = quietWorld\<lparr>cmdRun := (\<lambda>tr c a e d. Some ''no such stack'')\<rparr>"

text \<open>Three worlds in which one step fails: the clone; every command, in a workspace with a
  secret file; the query for the running services.\<close>

definition cloneFailWorld :: world where
  "cloneFailWorld = quietWorld\<lparr>gitPlainCloneContext := (\<lambda>tr p b opts. Some ''repository not found'')\<rparr>"

definition noKeyWorld :: world where
  "noKeyWorld = secretsWorld\<lparr>cmdRun := (\<lambda>tr c a e d. Some ''no key'')\<rparr>"

definition noDaemonWorld :: world where
  "noDaemonWorld = quietWorld
     \<lparr>checkRunningService := (\<lambda>tr p. Inl (errors_New ''daemon unreachable''))\<rparr>"

section \<open>The root directories are not nested\<close>

lemma lex_interval:
  fixes a b c :: "'a::linorder list"
  shows "a \<le> b \<Longrightarrow> b \<le> c \<Longrightarrow> prefix a c \<Longrightarrow> prefix a b"
proof (induction a arbitrary: b c)
  case Nil
  then show ?case by simp
next
  case (Cons x a)
  then show ?case
    by (cases b; cases c) auto
qed

lemma prefix_le:
  fixes a b :: "'a::linorder list"
  shows "prefix a b \<Longrightarrow> a \<le> b"
  by (induction a arbitrary: b) (auto simp: prefix_def)

lemma keeps_trans: "keeps a b \<Longrightarrow> keeps b c \<Longrightarrow> keeps a c"
proof -
  assume ab: "keeps a b" and bc: "keeps b c"
  then have "a < c" by (auto simp: keeps_def)
  moreover have "\<not> prefix a c"
  proof
    assume "prefix a c"
    moreover have "a \<le> b" "b \<le> c" using ab bc by (simp_all add: keeps_def less_imp_le)
    ultimately have "prefix a b" using lex_interval [of a b c] by simp
    with ab show False by (simp add: keeps_def)
  qed
  ultimately show ?thesis by (simp add: keeps_def)
qed

lemma rootPathsLoop_successively:
  "rootPaths \<noteq> [] \<Longrightarrow> successively keeps rootPaths \<Longrightarrow> sorted (last rootPaths # fs)
   \<Longrightarrow> successively keeps (rootPathsLoop rootPaths fs)"
proof (induction fs arbitrary: rootPaths)
  case Nil
  then show ?case by simp
next
  case (Cons f fs)
  show ?case
  proof (cases "prefix (last rootPaths) f")
    case True
    with Cons show ?thesis by (simp add: strings_HasPrefix_def)
  next
    case False
    from Cons.prems have le: "last rootPaths \<le> f" by simp
    from False have "last rootPaths \<noteq> f" by auto
    with le False have k: "keeps (last rootPaths) f" by (simp add: keeps_def)
    have "successively keeps (rootPaths @ [f])"
      using Cons.prems(1,2) k by (simp add: successively_append_iff)
    moreover have "sorted (last (rootPaths @ [f]) # fs)" using Cons.prems(3) by simp
    ultimately have "successively keeps (rootPathsLoop (rootPaths @ [f]) fs)"
      by (intro Cons.IH) simp_all
    with False show ?thesis by (simp add: strings_HasPrefix_def)
  qed
qed

lemma findRootPaths_sorted_wrt: "sorted_wrt keeps (findRootPaths filePaths)"
proof (cases "filePaths = []")
  case True
  then show ?thesis by (simp add: findRootPaths_def)
next
  case False
  define folderPaths where
    "folderPaths = sort (map (\<lambda>p. filepath_Clean (filepath_Dir p)) filePaths)"
  have "length folderPaths = length filePaths" by (simp add: folderPaths_def)
  then have ne: "folderPaths \<noteq> []" using False by auto
  then have "sorted (hd folderPaths # folderPaths)"
    by (cases folderPaths) (simp_all add: folderPaths_def, metis sorted_sort sorted_simps(2) order_refl)
  then have "successively keeps (rootPathsLoop [folderPaths ! 0] folderPaths)"
    using ne by (intro rootPathsLoop_successively) (simp_all add: hd_conv_nth)
  moreover have "transp keeps" using keeps_trans by (auto simp: transp_def)
  ultimately have "sorted_wrt keeps (rootPathsLoop [folderPaths ! 0] folderPaths)"
    using successively_conv_sorted_wrt by blast
  then show ?thesis using False by (simp add: findRootPaths_def folderPaths_def Let_def)
qed

lemma pathWithin_prefix: "pathWithin r d \<Longrightarrow> prefix r d"
  by (auto simp: pathWithin_def prefix_def split: if_splits)

lemma findRootPaths_no_prefix:
  assumes "i < length (findRootPaths filePaths)" "j < length (findRootPaths filePaths)" "i \<noteq> j"
  shows "\<not> prefix (findRootPaths filePaths ! i) (findRootPaths filePaths ! j)"
proof
  let ?rs = "findRootPaths filePaths"
  assume p: "prefix (?rs ! i) (?rs ! j)"
  have sw: "sorted_wrt keeps ?rs" by (rule findRootPaths_sorted_wrt)
  show False
  proof (cases "i < j")
    case True
    then have "keeps (?rs ! i) (?rs ! j)" using sw assms(2) by (simp add: sorted_wrt_iff_nth_less)
    with p show False by (simp add: keeps_def)
  next
    case False
    then have "j < i" using assms(3) by simp
    then have "keeps (?rs ! j) (?rs ! i)" using sw assms(1) by (simp add: sorted_wrt_iff_nth_less)
    then have "?rs ! j < ?rs ! i" by (simp add: keeps_def)
    moreover have "?rs ! i \<le> ?rs ! j" using p by (rule prefix_le)
    ultimately show False by simp
  qed
qed

text \<open>
  C3. Whatever the list of file paths, no directory that \<open>findRootPaths\<close> returns lies within
  another directory that it returns (two positions of the result never hold the same
  directory either), and for \<open>["/a/x/f1", "/a/x/y/f2", "/b/f3"]\<close> the result is
  \<open>["/a/x", "/b"]\<close>.
\<close>

theorem findRootPaths_not_nested:
  "(\<forall>i j. i < length (findRootPaths filePaths) \<and> j < length (findRootPaths filePaths) \<and> i \<noteq> j
       \<longrightarrow> \<not> pathWithin (findRootPaths filePaths ! i) (findRootPaths filePaths ! j))
   \<and> findRootPaths [''/a/x/f1'', ''/a/x/y/f2'', ''/b/f3''] = [''/a/x'', ''/b'']"
proof -
  have "findRootPaths [''/a/x/f1'', ''/a/x/y/f2'', ''/b/f3''] = [''/a/x'', ''/b'']"
    by (simp add: findRootPaths_def filepath_Dir_def filepath_Clean_def strings_HasPrefix_def)
  then show ?thesis
    using findRootPaths_no_prefix pathWithin_prefix by blast
qed

theorem findRootPaths_not_nested_witness:
  "\<not> pathWithin (findRootPaths [''/a/x/f1'', ''/a/x/y/f2'', ''/b/f3''] ! 0)
                 (findRootPaths [''/a/x/f1'', ''/a/x/y/f2'', ''/b/f3''] ! 1)
   \<and> findRootPaths [''/a/x/f1'', ''/a/x/y/f2'', ''/b/f3''] ! 0 = ''/a/x''
   \<and> findRootPaths [''/a/x/f1'', ''/a/x/y/f2'', ''/b/f3''] ! 1 = ''/b''"
  using findRootPaths_not_nested [of "[''/a/x/f1'', ''/a/x/y/f2'', ''/b/f3'']"]
  by (simp add: pathWithin_def)

section \<open>A sibling directory that the reduction drops\<close>

text \<open>
  C2. The reduction compares strings, not path elements: \<open>/a/bc\<close> starts with \<open>/a/b\<close>, so for
  the files \<open>/a/b/f1\<close> and \<open>/a/bc/f2\<close> the only root is \<open>/a/b\<close>, and the directory of the second
  file lies within no returned root.
\<close>

theorem findRootPaths_misses_sibling:
  "findRootPaths [''/a/b/f1'', ''/a/bc/f2''] = [''/a/b'']
   \<and> filepath_Dir ''/a/bc/f2'' = ''/a/bc''
   \<and> \<not> (\<exists>r \<in> set (findRootPaths [''/a/b/f1'', ''/a/bc/f2'']).
            pathWithin r (filepath_Dir ''/a/bc/f2''))"
  by (simp add: findRootPaths_def filepath_Dir_def filepath_Clean_def strings_HasPrefix_def
      pathWithin_def)

section \<open>Basic facts about traces\<close>

lemma runCommandAndCaptureStdErr_eq:
  "runCommandAndCaptureStdErr w c a e d tr =
     (map_option errors_New (cmdRun w tr c a (map_option ((@) (osEnviron w)) e) d),
      tr @ [CmdRun c a (map_option ((@) (osEnviron w)) e) d
              (cmdRun w tr c a (map_option ((@) (osEnviron w)) e) d)])"
  by (simp add: runCommandAndCaptureStdErr_def Let_def split: option.splits)

lemma calls_append [simp]: "calls (xs @ ys) = calls xs @ calls ys"
  by (simp add: calls_def)

lemma calls_Cons [simp]: "calls (x # xs) = callOf x @ calls xs"
  by (simp add: calls_def)

lemma calls_Nil [simp]: "calls [] = []"
  by (simp add: calls_def)

lemma emitted_append [simp]: "emitted tr (r, tr @ d) = d"
  by (simp add: emitted_def)

lemma emitted_self [simp]: "emitted tr (r, tr) = []"
  by (simp add: emitted_def)

lemma strings_Split_ne [simp]: "strings_Split s c \<noteq> []"
  by (induction s) (auto split: list.splits)

lemma length_strings_Split: "length (strings_Split s c) = Suc (count_list s c)"
  by (induction s) (auto split: list.splits)

lemma failedRun_CmdRun [simp]: "failedRun (CmdRun c a e d r) = (r \<noteq> None)"
  by (cases r) simp_all

lemma kinds_simps [simp]:
  "kinds [] = {}" "kinds (e # tr) = insert (kindOf e) (kinds tr)"
  "kinds (xs @ ys) = kinds xs \<union> kinds ys"
  by (auto simp: kinds_def)

lemma calls_no_CmdRun: "CmdRunK \<notin> kinds d \<Longrightarrow> calls d = []"
proof (induction d)
  case Nil
  then show ?case by simp
next
  case (Cons e d)
  then show ?case by (cases e) auto
qed

lemma walked_simps [simp]:
  "walked [] = []" "walked (e # tr) = walkedOf e @ walked tr"
  "walked (xs @ ys) = walked xs @ walked ys"
  by (simp_all add: walked_def)

lemma walked_no_WalkDir: "WalkDirK \<notin> kinds d \<Longrightarrow> walked d = []"
proof (induction d)
  case Nil
  then show ?case by simp
next
  case (Cons e d)
  then show ?case by (cases e) auto
qed

section \<open>Registry login and logout never fail\<close>

lemma dockerLogin_emits:
  "\<exists>d. dockerLogin w registries tr = (None, tr @ d)
       \<and> kinds d \<subseteq> {LogK, CmdRunK}
       \<and> calls d = map (loginCall w) (filter threeSegments registries)
       \<and> count_list d (Log WarnLevel)
           = length (filter (\<lambda>r. \<not> threeSegments r) registries) + length (filter failedRun d)"
proof (induction registries arbitrary: tr)
  case Nil
  then show ?case by simp
next
  case (Cons registry registries)
  show ?case
  proof (cases "threeSegments registry")
    case False
    obtain d where d: "dockerLogin w registries (tr @ [Log WarnLevel]) = (None, (tr @ [Log WarnLevel]) @ d)"
      "kinds d \<subseteq> {LogK, CmdRunK}"
      "calls d = map (loginCall w) (filter threeSegments registries)"
      "count_list d (Log WarnLevel)
           = length (filter (\<lambda>r. \<not> threeSegments r) registries) + length (filter failedRun d)"
      using Cons.IH by blast
    from False have n: "length (strings_Split registry (CHR '':'')) \<noteq> 3"
      by (simp add: threeSegments_def)
    show ?thesis
      by (rule exI [of _ "Log WarnLevel # d"]) (use False n d in simp)
  next
    case True
    define r where "r = cmdRun w tr (getDockerBinaryPath w)
        (loginArgs w (strings_Split registry (CHR '':''))) None []"
    define ev where "ev = CmdRun (getDockerBinaryPath w)
        (loginArgs w (strings_Split registry (CHR '':''))) None [] r"
    define lg where "lg = Log (if r = None then InfoLevel else WarnLevel)"
    obtain d where d: "dockerLogin w registries (tr @ [ev, lg]) = (None, (tr @ [ev, lg]) @ d)"
      "kinds d \<subseteq> {LogK, CmdRunK}"
      "calls d = map (loginCall w) (filter threeSegments registries)"
      "count_list d (Log WarnLevel)
           = length (filter (\<lambda>r. \<not> threeSegments r) registries) + length (filter failedRun d)"
      using Cons.IH by blast
    from True have n: "length (strings_Split registry (CHR '':'')) = 3"
      by (simp add: threeSegments_def)
    show ?thesis
      by (rule exI [of _ "ev # lg # d"])
         (use True n d in \<open>auto simp add: runCommandAndCaptureStdErr_eq
             loginCall_def ev_def lg_def r_def\<close>)
  qed
qed

lemma dockerLogout_emits:
  "\<exists>d. dockerLogout w registries tr = (None, tr @ d)
       \<and> kinds d \<subseteq> {LogK, CmdRunK}
       \<and> calls d = map (logoutCall w) (filter threeSegments registries)
       \<and> count_list d (Log WarnLevel)
           = length (filter (\<lambda>r. \<not> threeSegments r) registries) + length (filter failedRun d)"
proof (induction registries arbitrary: tr)
  case Nil
  then show ?case by simp
next
  case (Cons registry registries)
  show ?case
  proof (cases "threeSegments registry")
    case False
    obtain d where d: "dockerLogout w registries (tr @ [Log WarnLevel]) = (None, (tr @ [Log WarnLevel]) @ d)"
      "kinds d \<subseteq> {LogK, CmdRunK}"
      "calls d = map (logoutCall w) (filter threeSegments registries)"
      "count_list d (Log WarnLevel)
           = length (filter (\<lambda>r. \<not> threeSegments r) registries) + length (filter failedRun d)"
      using Cons.IH by blast
    from False have n: "length (strings_Split registry (CHR '':'')) \<noteq> 3"
      by (simp add: threeSegments_def)
    show ?thesis
      by (rule exI [of _ "Log WarnLevel # d"]) (use False n d in simp)
  next
    case True
    define r where "r = cmdRun w tr (getDockerBinaryPath w)
        (logoutArgs w (strings_Split registry (CHR '':''))) None []"
    define ev where "ev = CmdRun (getDockerBinaryPath w)
        (logoutArgs w (strings_Split registry (CHR '':''))) None [] r"
    define lg where "lg = Log (if r = None then InfoLevel else WarnLevel)"
    obtain d where d: "dockerLogout w registries (tr @ [ev, lg]) = (None, (tr @ [ev, lg]) @ d)"
      "kinds d \<subseteq> {LogK, CmdRunK}"
      "calls d = map (logoutCall w) (filter threeSegments registries)"
      "count_list d (Log WarnLevel)
           = length (filter (\<lambda>r. \<not> threeSegments r) registries) + length (filter failedRun d)"
      using Cons.IH by blast
    from True have n: "length (strings_Split registry (CHR '':'')) = 3"
      by (simp add: threeSegments_def)
    show ?thesis
      by (rule exI [of _ "ev # lg # d"])
         (use True n d in \<open>auto simp add: runCommandAndCaptureStdErr_eq
             logoutCall_def ev_def lg_def r_def\<close>)
  qed
qed


text \<open>
  C7. For every list of credential strings \<open>dockerLogin\<close> and \<open>dockerLogout\<close> return \<open>nil\<close>.
  Each runs its command for exactly the strings that split on \<open>:\<close> into three segments (those
  with two separators), in their order, whether or not earlier commands failed, and logs one
  warning for each other string and one for each command that failed.
\<close>

theorem registry_login_logout_never_fail:
  "fst (dockerLogin w registries tr) = None
   \<and> fst (dockerLogout w registries tr) = None
   \<and> calls (emitted tr (dockerLogin w registries tr))
       = map (loginCall w) (filter threeSegments registries)
   \<and> calls (emitted tr (dockerLogout w registries tr))
       = map (logoutCall w) (filter threeSegments registries)
   \<and> count_list (emitted tr (dockerLogin w registries tr)) (Log WarnLevel)
       = length (filter (\<lambda>r. \<not> threeSegments r) registries)
         + length (filter failedRun (emitted tr (dockerLogin w registries tr)))
   \<and> count_list (emitted tr (dockerLogout w registries tr)) (Log WarnLevel)
       = length (filter (\<lambda>r. \<not> threeSegments r) registries)
         + length (filter failedRun (emitted tr (dockerLogout w registries tr)))
   \<and> (threeSegments registry \<longleftrightarrow> count_list registry (CHR '':'') = 2)"
proof -
  obtain d1 where d1: "dockerLogin w registries tr = (None, tr @ d1)"
    "calls d1 = map (loginCall w) (filter threeSegments registries)"
    "count_list d1 (Log WarnLevel)
       = length (filter (\<lambda>r. \<not> threeSegments r) registries) + length (filter failedRun d1)"
    using dockerLogin_emits by blast
  obtain d2 where d2: "dockerLogout w registries tr = (None, tr @ d2)"
    "calls d2 = map (logoutCall w) (filter threeSegments registries)"
    "count_list d2 (Log WarnLevel)
       = length (filter (\<lambda>r. \<not> threeSegments r) registries) + length (filter failedRun d2)"
    using dockerLogout_emits by blast
  have "threeSegments registry \<longleftrightarrow> count_list registry (CHR '':'') = 2"
    by (simp add: threeSegments_def length_strings_Split)
  with d1 d2 show ?thesis by simp
qed

section \<open>The name of the decrypted file\<close>

lemma piecesOf_ne [simp]: "piecesOf s old \<noteq> []"
  by (induction s old rule: piecesOf.induct) (subst piecesOf.simps, auto split: list.splits)

lemma strings_Join_Cons: "ps \<noteq> [] \<Longrightarrow> strings_Join (p # ps) sep = p @ sep @ strings_Join ps sep"
  by (cases ps) simp_all

lemma strings_Join_Cons_Cons:
  "strings_Join ((c # p) # ps) sep = c # strings_Join (p # ps) sep"
  by (cases ps) simp_all

lemma piecesOf_Join: "old \<noteq> [] \<Longrightarrow> strings_Join (piecesOf s old) old = s"
proof (induction s old rule: piecesOf.induct)
  case (1 s old)
  show ?case
  proof (cases "s = []")
    case True
    then show ?thesis by (subst piecesOf.simps) simp
  next
    case ne: False
    show ?thesis
    proof (cases "prefix old s")
      case True
      then have "s = old @ drop (length old) s" by (auto simp: prefix_def)
      moreover have "strings_Join (piecesOf (drop (length old) s) old) old = drop (length old) s"
        using 1 ne True by simp
      ultimately show ?thesis using ne True 1(3)
        by (subst piecesOf.simps) (simp add: strings_Join_Cons)
    next
      case False
      obtain p ps where pp: "piecesOf (tl s) old = p # ps"
        using piecesOf_ne [of "tl s" old] by (cases "piecesOf (tl s) old") auto
      have "strings_Join (piecesOf (tl s) old) old = tl s" using 1 ne False by simp
      then show ?thesis using ne False pp
        by (subst piecesOf.simps) (simp add: strings_Join_Cons_Cons)
    qed
  qed
qed

lemma ReplaceAll_pieces:
  "old \<noteq> [] \<Longrightarrow> strings_ReplaceAll s old new = strings_Join (piecesOf s old) new"
proof (induction s old rule: piecesOf.induct)
  case (1 s old)
  show ?case
  proof (cases "s = []")
    case True
    then show ?thesis using 1(3) by (subst piecesOf.simps, subst strings_ReplaceAll.simps) simp
  next
    case ne: False
    show ?thesis
    proof (cases "prefix old s")
      case True
      have "strings_ReplaceAll (drop (length old) s) old new
            = strings_Join (piecesOf (drop (length old) s) old) new"
        using 1 ne True by simp
      then show ?thesis using ne True 1(3)
        by (subst piecesOf.simps, subst strings_ReplaceAll.simps) (simp add: strings_Join_Cons)
    next
      case False
      obtain p ps where pp: "piecesOf (tl s) old = p # ps"
        using piecesOf_ne [of "tl s" old] by (cases "piecesOf (tl s) old") auto
      have "strings_ReplaceAll (tl s) old new = strings_Join (piecesOf (tl s) old) new"
        using 1 ne False by simp
      then show ?thesis using ne False pp 1(3)
        by (subst piecesOf.simps, subst strings_ReplaceAll.simps) (simp add: strings_Join_Cons_Cons)
    qed
  qed
qed

lemma piecesOf_hd_prefix: "prefix (hd (piecesOf s old)) s"
proof (induction s old rule: piecesOf.induct)
  case (1 s old)
  show ?case
  proof (cases "s = [] \<or> (old \<noteq> [] \<and> prefix old s)")
    case True
    then show ?thesis by (subst piecesOf.simps) auto
  next
    case False
    obtain p ps where pp: "piecesOf (tl s) old = p # ps"
      using piecesOf_ne [of "tl s" old] by (cases "piecesOf (tl s) old") auto
    have "prefix (hd (piecesOf (tl s) old)) (tl s)" using 1(2) False by blast
    with pp have "prefix (hd s # p) (hd s # tl s)" by simp
    moreover have "hd s # tl s = s" using False by simp
    ultimately have "prefix (hd s # p) s" by simp
    then show ?thesis using False pp by (subst piecesOf.simps) auto
  qed
qed

lemma piecesOf_free: "old \<noteq> [] \<Longrightarrow> p \<in> set (piecesOf s old) \<Longrightarrow> \<not> sublist old p"
proof (induction s old arbitrary: p rule: piecesOf.induct)
  case (1 s old)
  show ?case
  proof (cases "s = []")
    case True
    then show ?thesis using 1(3,4) by (subst (asm) piecesOf.simps) simp
  next
    case ne: False
    show ?thesis
    proof (cases "prefix old s")
      case True
      then have "p = [] \<or> p \<in> set (piecesOf (drop (length old) s) old)"
        using 1(3,4) ne by (subst (asm) piecesOf.simps) auto
      then show ?thesis using 1(1) [OF ne] True 1(3) by auto
    next
      case False
      obtain q qs where pp: "piecesOf (tl s) old = q # qs"
        using piecesOf_ne [of "tl s" old] by (cases "piecesOf (tl s) old") auto
      have "p = hd s # q \<or> p \<in> set qs"
        using 1(4) ne False pp by (subst (asm) piecesOf.simps) auto
      then show ?thesis
      proof
        assume p: "p = hd s # q"
        have "\<not> sublist old q" using 1(2) [of q] ne False 1(3) pp by simp
        moreover have "\<not> prefix old (hd s # q)"
        proof
          assume "prefix old (hd s # q)"
          moreover have "prefix (hd s # q) (hd s # tl s)"
            using piecesOf_hd_prefix [of "tl s" old] pp by simp
          ultimately have "prefix old s" using ne by (metis list.collapse prefix_order.trans)
          with False show False by simp
        qed
        ultimately show ?thesis using p by (simp add: sublist_Cons_right)
      next
        assume "p \<in> set qs"
        then show ?thesis using 1(2) [of p] ne False 1(3) pp by simp
      qed
    qed
  qed
qed

text \<open>
  C10, as far as it holds. The name after \<open>--output\<close> is the name of the secret file with
  every occurrence of \<open>.sops.\<close> that a scan from the left finds replaced by \<open>.\<close>, where the
  scan goes on behind an occurrence that it has found: the pieces between these occurrences,
  none of which contains \<open>.sops.\<close>, make up the name when joined by \<open>.sops.\<close> and the output
  name when joined by \<open>.\<close>. For \<open>a.sops.b.sops.yml\<close> the output name is \<open>a.b.yml\<close>.
\<close>

theorem output_name_replaces_every_marker:
  "decryptArgs sopsFilePath ! 1
     = strings_Join (piecesOf (filepath_Base sopsFilePath) ''.sops.'') ''.''
   \<and> strings_Join (piecesOf (filepath_Base sopsFilePath) ''.sops.'') ''.sops.''
     = filepath_Base sopsFilePath
   \<and> (\<forall>p \<in> set (piecesOf (filepath_Base sopsFilePath) ''.sops.''). \<not> sublist ''.sops.'' p)
   \<and> decryptArgs ''/w/a.sops.b.sops.yml''
     = [''--output'', ''a.b.yml'', ''--decrypt'', ''a.sops.b.sops.yml'']"
proof -
  have "decryptArgs ''/w/a.sops.b.sops.yml''
     = [''--output'', ''a.b.yml'', ''--decrypt'', ''a.sops.b.sops.yml'']"
    by (simp add: decryptArgs_def filepath_Base_def strings_ReplaceAll.simps)
  moreover have "decryptArgs sopsFilePath ! 1
     = strings_Join (piecesOf (filepath_Base sopsFilePath) ''.sops.'') ''.''"
    by (simp add: decryptArgs_def Let_def ReplaceAll_pieces)
  ultimately show ?thesis
    using piecesOf_Join [of "''.sops.''"] piecesOf_free [of "''.sops.''"] by blast
qed

theorem output_name_replaces_every_marker_witness:
  "piecesOf (filepath_Base ''/w/a.sops.b.sops.yml'') ''.sops.'' = [''a'', ''b'', ''yml'']
   \<and> decryptArgs ''/w/a.sops.b.sops.yml'' ! 1 = strings_Join [''a'', ''b'', ''yml''] ''.''
   \<and> \<not> sublist ''.sops.'' ''a'' \<and> \<not> sublist ''.sops.'' ''b'' \<and> \<not> sublist ''.sops.'' ''yml''"
proof -
  have p: "piecesOf (filepath_Base ''/w/a.sops.b.sops.yml'') ''.sops.'' = [''a'', ''b'', ''yml'']"
    by (simp add: filepath_Base_def piecesOf.simps)
  show ?thesis
    using output_name_replaces_every_marker [of "''/w/a.sops.b.sops.yml''"] unfolding p by simp
qed

text \<open>
  The claim as the specification has it, that all occurrences of the marker are removed,
  fails where two occurrences share a dot: in \<open>a.sops.sops.yml\<close> the scan finds the first
  and goes on at \<open>sops.yml\<close>, so the output name \<open>a.sops.yml\<close> still holds the marker.
\<close>

theorem shared_dot_keeps_marker:
  "decryptArgs ''/w/a.sops.sops.yml''
     = [''--output'', ''a.sops.yml'', ''--decrypt'', ''a.sops.sops.yml'']
   \<and> sublist ''.sops.'' ''a.sops.sops.yml''
   \<and> sublist ''.sops.'' ''a.sops.yml''"
proof -
  have "sublist ''.sops.'' (''a'' @ ''.sops.'' @ ''sops.yml'')"
    "sublist ''.sops.'' (''a'' @ ''.sops.'' @ ''yml'')"
    by (rule sublist_appendI)+
  moreover have "decryptArgs ''/w/a.sops.sops.yml''
     = [''--output'', ''a.sops.yml'', ''--decrypt'', ''a.sops.sops.yml'']"
    by (simp add: decryptArgs_def filepath_Base_def strings_ReplaceAll.simps)
  ultimately show ?thesis by simp
qed

section \<open>Only secret files are decrypted\<close>

lemma sopsPaths_simps [simp]:
  "sopsPaths [] = []" "sopsPaths (xs @ ys) = sopsPaths xs @ sopsPaths ys"
  by (simp_all add: sopsPaths_def)

lemma walkFn_emits:
  "\<exists>d. walkFn vs acc tr = (acc @ sopsPaths vs, tr @ d) \<and> kinds d \<subseteq> {LogK}"
proof (induction vs acc tr rule: walkFn.induct)
  case (1 sopsFilePaths tr)
  then show ?case by simp
next
  case (2 path err vs sopsFilePaths tr)
  then obtain d where "walkFn vs sopsFilePaths (tr @ [Log WarnLevel])
      = (sopsFilePaths @ sopsPaths vs, (tr @ [Log WarnLevel]) @ d)" "kinds d \<subseteq> {LogK}"
    by blast
  then show ?case
    by (intro exI [of _ "Log WarnLevel # d"]) (simp add: sopsPaths_def)
next
  case (3 path ft vs sopsFilePaths tr)
  show ?case
  proof (cases "ft \<noteq> Directory \<and> filepath_Match ''*.sops.*'' (filepath_Base path)")
    case True
    then obtain d where "walkFn vs (sopsFilePaths @ [path]) (tr @ [Log InfoLevel])
      = ((sopsFilePaths @ [path]) @ sopsPaths vs, (tr @ [Log InfoLevel]) @ d)" "kinds d \<subseteq> {LogK}"
      using 3(1) by (auto simp: DirEntry_IsDir_def DirEntry_Name_def)
    with True show ?thesis
      by (intro exI [of _ "Log InfoLevel # d"])
         (simp add: sopsPaths_def DirEntry_IsDir_def DirEntry_Name_def)
  next
    case False
    then obtain d where "walkFn vs sopsFilePaths tr = (sopsFilePaths @ sopsPaths vs, tr @ d)"
      "kinds d \<subseteq> {LogK}"
      using 3(2,3) by (auto simp: DirEntry_IsDir_def DirEntry_Name_def)
    with False show ?thesis
      by (intro exI [of _ d]) (auto simp add: sopsPaths_def DirEntry_IsDir_def DirEntry_Name_def)
  qed
qed

lemma walkRoots_emits:
  "\<exists>d. walkRoots w roots acc tr = (acc @ sopsPaths (walked d), tr @ d)
       \<and> kinds d \<subseteq> {LogK, WalkDirK}"
proof (induction roots arbitrary: acc tr)
  case Nil
  show ?case by (intro exI [of _ "[]"]) simp
next
  case (Cons root roots)
  define vs where "vs = walkDir w (tr @ [Log InfoLevel]) root"
  obtain d1 where d1: "walkFn vs acc (tr @ [Log InfoLevel] @ [WalkDir root vs])
      = (acc @ sopsPaths vs, (tr @ [Log InfoLevel] @ [WalkDir root vs]) @ d1)" "kinds d1 \<subseteq> {LogK}"
    using walkFn_emits by blast
  obtain d2 where d2: "walkRoots w roots (acc @ sopsPaths vs)
        ((tr @ [Log InfoLevel] @ [WalkDir root vs]) @ d1)
      = ((acc @ sopsPaths vs) @ sopsPaths (walked d2),
         ((tr @ [Log InfoLevel] @ [WalkDir root vs]) @ d1) @ d2)" "kinds d2 \<subseteq> {LogK, WalkDirK}"
    using Cons.IH by blast
  have w1: "walked d1 = []" using d1(2) by (intro walked_no_WalkDir) auto
  show ?case
    by (intro exI [of _ "Log InfoLevel # WalkDir root vs # d1 @ d2"])
       (use d1 d2 w1 in \<open>auto simp: Let_def vs_def [symmetric]\<close>)
qed

lemma decryptLoop_emits:
  "\<exists>d. decryptLoop w c env ps tr = (fst (decryptLoop w c env ps tr), tr @ d)
       \<and> kinds d \<subseteq> {LogK, CmdRunK}
       \<and> prefix (calls d) (map (\<lambda>p. (c, decryptArgs p, filepath_Dir p)) ps)
       \<and> (fst (decryptLoop w c env ps tr) = None
            \<longrightarrow> calls d = map (\<lambda>p. (c, decryptArgs p, filepath_Dir p)) ps)"
proof (induction ps arbitrary: tr)
  case Nil
  show ?case by (intro exI [of _ "[]"]) simp
next
  case (Cons p ps)
  define env' where "env' = map_option ((@) (osEnviron w)) env"
  define r where "r = cmdRun w tr c (decryptArgs p) env' (filepath_Dir p)"
  define ev where "ev = CmdRun c (decryptArgs p) env' (filepath_Dir p) r"
  have run: "runCommandAndCaptureStdErr w c (decryptArgs p) env (filepath_Dir p) tr
      = (map_option errors_New r, tr @ [ev])"
    by (simp add: runCommandAndCaptureStdErr_eq ev_def r_def env'_def)
  show ?case
  proof (cases r)
    case None
    obtain d where d: "decryptLoop w c env ps (tr @ [ev])
        = (fst (decryptLoop w c env ps (tr @ [ev])), (tr @ [ev]) @ d)"
      "kinds d \<subseteq> {LogK, CmdRunK}"
      "prefix (calls d) (map (\<lambda>p. (c, decryptArgs p, filepath_Dir p)) ps)"
      "fst (decryptLoop w c env ps (tr @ [ev])) = None
            \<longrightarrow> calls d = map (\<lambda>p. (c, decryptArgs p, filepath_Dir p)) ps"
      using Cons.IH by blast
    have "decryptLoop w c env (p # ps) tr = decryptLoop w c env ps (tr @ [ev])"
      using run None by simp
    then show ?thesis
      using d by (intro exI [of _ "ev # d"]) (auto simp: ev_def)
  next
    case (Some stderr)
    have "decryptLoop w c env (p # ps) tr = (Some (errors_New stderr), tr @ [ev, Log WarnLevel])"
      using run Some by simp
    then show ?thesis
      by (intro exI [of _ "[ev, Log WarnLevel]"]) (auto simp: ev_def)
  qed
qed

lemma sopsDecrypt_emits:
  "\<exists>d. sopsDecrypt w fps env tr = (fst (sopsDecrypt w fps env tr), tr @ d)
       \<and> kinds d \<subseteq> {LogK, WalkDirK, CmdRunK}
       \<and> prefix (calls d) (map (decryptCall w) (sopsPaths (walked d)))
       \<and> (fst (sopsDecrypt w fps env tr) = None
            \<longrightarrow> calls d = map (decryptCall w) (sopsPaths (walked d)))"
proof -
  obtain d1 where d1: "walkRoots w (findRootPaths fps) [] tr = ([] @ sopsPaths (walked d1), tr @ d1)"
    "kinds d1 \<subseteq> {LogK, WalkDirK}"
    using walkRoots_emits by blast
  let ?ps = "sopsPaths (walked d1)"
  let ?r = "decryptLoop w (getSopsBinaryPath w) env ?ps (tr @ d1)"
  obtain d2 where d2: "?r = (fst ?r, (tr @ d1) @ d2)"
    "kinds d2 \<subseteq> {LogK, CmdRunK}"
    "prefix (calls d2) (map (\<lambda>p. (getSopsBinaryPath w, decryptArgs p, filepath_Dir p)) ?ps)"
    "fst ?r = None
       \<longrightarrow> calls d2 = map (\<lambda>p. (getSopsBinaryPath w, decryptArgs p, filepath_Dir p)) ?ps"
    using decryptLoop_emits by blast
  have c1: "calls d1 = []" using d1(2) by (intro calls_no_CmdRun) auto
  have w2: "walked d2 = []" using d2(2) by (intro walked_no_WalkDir) auto
  have s: "sopsDecrypt w fps env tr = ?r" using d1(1) by (simp add: sopsDecrypt_def)
  have dc: "decryptCall w = (\<lambda>p. (getSopsBinaryPath w, decryptArgs p, filepath_Dir p))"
    by (auto simp: decryptCall_def)
  show ?thesis
  proof (intro exI [of _ "d1 @ d2"] conjI)
    show "sopsDecrypt w fps env tr = (fst (sopsDecrypt w fps env tr), tr @ d1 @ d2)"
      using s d2(1) by (metis append.assoc)
    show "kinds (d1 @ d2) \<subseteq> {LogK, WalkDirK, CmdRunK}" using d1(2) d2(2) by auto
    show "prefix (calls (d1 @ d2)) (map (decryptCall w) (sopsPaths (walked (d1 @ d2))))"
      using d2(3) c1 w2 dc by simp
    show "fst (sopsDecrypt w fps env tr) = None
            \<longrightarrow> calls (d1 @ d2) = map (decryptCall w) (sopsPaths (walked (d1 @ d2)))"
      using d2(4) c1 w2 dc s by simp
  qed
qed

lemma Match_star:
  "filepath_Match (CHR ''*'' # ps) s
     \<longleftrightarrow> (\<exists>a b. s = a @ b \<and> CHR ''/'' \<notin> set a \<and> filepath_Match ps b)"
proof (induction s)
  case Nil
  then show ?case by simp
next
  case (Cons c cs)
  show ?case
  proof
    assume "filepath_Match (CHR ''*'' # ps) (c # cs)"
    then consider "filepath_Match ps (c # cs)"
      | "c \<noteq> CHR ''/''" "filepath_Match (CHR ''*'' # ps) cs"
      by auto
    then show "\<exists>a b. c # cs = a @ b \<and> CHR ''/'' \<notin> set a \<and> filepath_Match ps b"
    proof cases
      case 1
      then show ?thesis by (intro exI [of _ "[]"] exI [of _ "c # cs"]) simp
    next
      case 2
      then obtain a b where "cs = a @ b" "CHR ''/'' \<notin> set a" "filepath_Match ps b"
        using Cons.IH by blast
      with 2(1) show ?thesis by (intro exI [of _ "c # a"] exI [of _ b]) simp
    qed
  next
    assume "\<exists>a b. c # cs = a @ b \<and> CHR ''/'' \<notin> set a \<and> filepath_Match ps b"
    then obtain a b where ab: "c # cs = a @ b" "CHR ''/'' \<notin> set a" "filepath_Match ps b"
      by blast
    show "filepath_Match (CHR ''*'' # ps) (c # cs)"
    proof (cases a)
      case Nil
      with ab have "filepath_Match ps (c # cs)" by simp
      then show ?thesis by simp
    next
      case (Cons x a')
      with ab have "c \<noteq> CHR ''/''" "cs = a' @ b" "CHR ''/'' \<notin> set a'" by auto
      then have "filepath_Match (CHR ''*'' # ps) cs" using Cons.IH ab(3) by blast
      with \<open>c \<noteq> CHR ''/''\<close> show ?thesis by simp
    qed
  qed
qed

lemma Match_literal:
  "p \<noteq> CHR ''*'' \<Longrightarrow> filepath_Match (p # ps) s \<longleftrightarrow> (\<exists>t. s = p # t \<and> filepath_Match ps t)"
  by (cases s) auto

lemma Match_sops:
  "filepath_Match ''*.sops.*'' name
     \<longleftrightarrow> (\<exists>a b. name = a @ ''.sops.'' @ b \<and> CHR ''/'' \<notin> set a \<and> CHR ''/'' \<notin> set b)"
proof -
  have tail: "filepath_Match ''.sops.*'' t \<longleftrightarrow> (\<exists>b. t = ''.sops.'' @ b \<and> CHR ''/'' \<notin> set b)" for t
    by (auto simp: Match_literal Match_star)
  show ?thesis
    by (subst Match_star) (simp only: tail, blast)
qed

lemma ReplaceAll_absent:
  "old \<noteq> [] \<Longrightarrow> \<not> sublist old s \<Longrightarrow> strings_ReplaceAll s old new = s"
proof (induction s)
  case Nil
  then show ?case by (subst strings_ReplaceAll.simps) simp
next
  case (Cons c s)
  then have "\<not> prefix old (c # s)" "\<not> sublist old s" by (auto simp: sublist_Cons_right)
  then show ?case using Cons by (subst strings_ReplaceAll.simps) simp
qed

lemma ReplaceAll_step:
  "old \<noteq> [] \<Longrightarrow> \<not> prefix old (c # s)
   \<Longrightarrow> strings_ReplaceAll (c # s) old new = c # strings_ReplaceAll s old new"
  by (subst strings_ReplaceAll.simps) simp

text \<open>The first occurrence of the marker is replaced where no occurrence starts before it.\<close>

lemma ReplaceAll_marker:
  "\<not> sublist ''.sops.'' (base @ ''.sops'')
   \<Longrightarrow> strings_ReplaceAll (base @ ''.sops.'' @ rest) ''.sops.'' ''.''
       = base @ ''.'' @ strings_ReplaceAll rest ''.sops.'' ''.''"
proof (induction base)
  case Nil
  then show ?case by (subst strings_ReplaceAll.simps) simp
next
  case (Cons c base)
  have np: "\<not> prefix ''.sops.'' (c # (base @ ''.sops.'' @ rest))"
  proof
    assume a: "prefix ''.sops.'' (c # (base @ ''.sops.'' @ rest))"
    have "prefix ((c # base) @ ''.sops'') (c # (base @ ''.sops.'' @ rest))" by simp
    with a have "prefix ''.sops.'' ((c # base) @ ''.sops'')"
      by (rule prefix_length_prefix) simp
    then have "sublist ''.sops.'' ((c # base) @ ''.sops'')" by (rule prefix_imp_sublist)
    with Cons.prems show False by blast
  qed
  have "strings_ReplaceAll (c # (base @ ''.sops.'' @ rest)) ''.sops.'' ''.''
      = c # strings_ReplaceAll (base @ ''.sops.'' @ rest) ''.sops.'' ''.''"
    by (rule ReplaceAll_step [OF _ np]) simp
  moreover have "\<not> sublist ''.sops.'' (base @ ''.sops'')"
    using Cons.prems by (simp add: sublist_Cons_right)
  ultimately show ?case using Cons.IH by simp
qed

lemma sopsPaths_iff:
  "p \<in> set (sopsPaths vs)
     \<longleftrightarrow> (\<exists>ft. VisitEntry p ft \<in> set vs \<and> ft \<noteq> Directory
                 \<and> filepath_Match ''*.sops.*'' (filepath_Base p))"
proof
  assume "p \<in> set (sopsPaths vs)"
  then obtain v where v: "v \<in> set vs" "isSops v" "visitPath v = p"
    by (auto simp: sopsPaths_def)
  show "\<exists>ft. VisitEntry p ft \<in> set vs \<and> ft \<noteq> Directory
          \<and> filepath_Match ''*.sops.*'' (filepath_Base p)"
  proof (cases v)
    case (VisitErr path err)
    with v(2) show ?thesis by simp
  next
    case (VisitEntry path ft)
    with v have "VisitEntry p ft \<in> set vs" "ft \<noteq> Directory"
      "filepath_Match ''*.sops.*'' (filepath_Base p)"
      by auto
    then show ?thesis by blast
  qed
next
  assume "\<exists>ft. VisitEntry p ft \<in> set vs \<and> ft \<noteq> Directory
            \<and> filepath_Match ''*.sops.*'' (filepath_Base p)"
  then obtain ft where "VisitEntry p ft \<in> set vs" "ft \<noteq> Directory"
    "filepath_Match ''*.sops.*'' (filepath_Base p)"
    by blast
  then have "VisitEntry p ft \<in> set (filter isSops vs)" by simp
  then have "visitPath (VisitEntry p ft) \<in> set (sopsPaths vs)"
    unfolding sopsPaths_def set_map by (rule imageI)
  then show "p \<in> set (sopsPaths vs)" by simp
qed

lemma decryptCall_eq:
  "decryptCall w p
     = (filepath_Join [BIN_PATH w, if GOOS w = ''windows'' then ''sops.exe'' else ''sops''],
        [''--output'', strings_ReplaceAll (filepath_Base p) ''.sops.'' ''.'',
         ''--decrypt'', filepath_Base p],
        filepath_Dir p)"
  by (simp add: decryptCall_def decryptArgs_def getSopsBinaryPath_def Let_def)

text \<open>
  C4, as far as it holds. The commands that \<open>sopsDecrypt\<close> runs are, in order, the decrypt
  commands of the paths that its walks met with an entry of another type than directory (a
  regular file, and a symbolic link or a device as well) and with a last element that
  matches \<open>*.sops.*\<close>, which is a name with \<open>.sops.\<close> in it: all of them when no command fails,
  and those up to the first failure otherwise. So every command that is run belongs to such
  a path. The command for a path runs the decrypt tool in the folder of the path, on the
  name of the file, with the output name in which \<open>.sops.\<close> is replaced by \<open>.\<close>; for a name
  \<open>base.sops.ext\<close> in which \<open>.sops.\<close> occurs nowhere else this is \<open>base.ext\<close>.
\<close>

theorem only_secret_files_are_decrypted:
  "prefix (calls (emitted tr (sopsDecrypt w fps env tr)))
          (map (decryptCall w) (sopsPaths (walked (emitted tr (sopsDecrypt w fps env tr)))))
   \<and> (fst (sopsDecrypt w fps env tr) = None
        \<longrightarrow> calls (emitted tr (sopsDecrypt w fps env tr))
            = map (decryptCall w) (sopsPaths (walked (emitted tr (sopsDecrypt w fps env tr)))))
   \<and> (\<forall>call \<in> set (calls (emitted tr (sopsDecrypt w fps env tr))).
         \<exists>path ft.
           VisitEntry path ft \<in> set (walked (emitted tr (sopsDecrypt w fps env tr)))
           \<and> ft \<noteq> Directory
           \<and> filepath_Match ''*.sops.*'' (filepath_Base path)
           \<and> call = (filepath_Join [BIN_PATH w,
                                    if GOOS w = ''windows'' then ''sops.exe'' else ''sops''],
                     [''--output'', strings_ReplaceAll (filepath_Base path) ''.sops.'' ''.'',
                      ''--decrypt'', filepath_Base path],
                     filepath_Dir path))
   \<and> (p \<in> set (sopsPaths vs)
        \<longleftrightarrow> (\<exists>ft. VisitEntry p ft \<in> set vs \<and> ft \<noteq> Directory
                    \<and> filepath_Match ''*.sops.*'' (filepath_Base p)))
   \<and> (filepath_Match ''*.sops.*'' n
        \<longleftrightarrow> (\<exists>a b. n = a @ ''.sops.'' @ b \<and> CHR ''/'' \<notin> set a \<and> CHR ''/'' \<notin> set b))
   \<and> decryptCall w p
        = (filepath_Join [BIN_PATH w, if GOOS w = ''windows'' then ''sops.exe'' else ''sops''],
           [''--output'', strings_ReplaceAll (filepath_Base p) ''.sops.'' ''.'',
            ''--decrypt'', filepath_Base p],
           filepath_Dir p)
   \<and> (\<not> sublist ''.sops.'' (base @ ''.sops'') \<and> \<not> sublist ''.sops.'' ext
        \<longrightarrow> strings_ReplaceAll (base @ ''.sops.'' @ ext) ''.sops.'' ''.'' = base @ ''.'' @ ext)"
proof -
  obtain d where d: "sopsDecrypt w fps env tr = (fst (sopsDecrypt w fps env tr), tr @ d)"
    "prefix (calls d) (map (decryptCall w) (sopsPaths (walked d)))"
    "fst (sopsDecrypt w fps env tr) = None
       \<longrightarrow> calls d = map (decryptCall w) (sopsPaths (walked d))"
    using sopsDecrypt_emits by blast
  have e: "emitted tr (sopsDecrypt w fps env tr) = d"
    by (subst d(1)) simp
  have each: "\<forall>call \<in> set (calls d).
         \<exists>path ft. VisitEntry path ft \<in> set (walked d) \<and> ft \<noteq> Directory
           \<and> filepath_Match ''*.sops.*'' (filepath_Base path)
           \<and> call = (filepath_Join [BIN_PATH w,
                                    if GOOS w = ''windows'' then ''sops.exe'' else ''sops''],
                     [''--output'', strings_ReplaceAll (filepath_Base path) ''.sops.'' ''.'',
                      ''--decrypt'', filepath_Base path],
                     filepath_Dir path)"
  proof
    fix call assume "call \<in> set (calls d)"
    then have "call \<in> set (map (decryptCall w) (sopsPaths (walked d)))"
      using d(2) set_mono_prefix by blast
    then obtain path where path: "path \<in> set (sopsPaths (walked d))" "call = decryptCall w path"
      by auto
    from path(1) obtain ft where "VisitEntry path ft \<in> set (walked d)" "ft \<noteq> Directory"
      "filepath_Match ''*.sops.*'' (filepath_Base path)"
      using sopsPaths_iff [of path "walked d"] by blast
    then show "\<exists>path ft. VisitEntry path ft \<in> set (walked d) \<and> ft \<noteq> Directory
           \<and> filepath_Match ''*.sops.*'' (filepath_Base path)
           \<and> call = (filepath_Join [BIN_PATH w,
                                    if GOOS w = ''windows'' then ''sops.exe'' else ''sops''],
                     [''--output'', strings_ReplaceAll (filepath_Base path) ''.sops.'' ''.'',
                      ''--decrypt'', filepath_Base path],
                     filepath_Dir path)"
      using path(2) decryptCall_eq [of w path] by blast
  qed
  have "\<not> sublist ''.sops.'' (base @ ''.sops'') \<and> \<not> sublist ''.sops.'' ext
        \<longrightarrow> strings_ReplaceAll (base @ ''.sops.'' @ ext) ''.sops.'' ''.'' = base @ ''.'' @ ext"
  proof (intro impI, elim conjE)
    assume a: "\<not> sublist ''.sops.'' (base @ ''.sops'')" and b: "\<not> sublist ''.sops.'' ext"
    have "strings_ReplaceAll ext ''.sops.'' ''.'' = ext"
      using b by (intro ReplaceAll_absent) simp_all
    then show "strings_ReplaceAll (base @ ''.sops.'' @ ext) ''.sops.'' ''.'' = base @ ''.'' @ ext"
      using ReplaceAll_marker [OF a, of ext] by simp
  qed
  then show ?thesis
    unfolding e using d(2,3) each sopsPaths_iff [of p vs] Match_sops [of n] decryptCall_eq [of w p]
    by blast
qed

lemmas sopsDecrypt_eval =
  sopsDecrypt_def findRootPaths_def filepath_Dir_def filepath_Clean_def strings_HasPrefix_def
  secretsWorld_def linkWorld_def quietWorld_def Let_def filepath_Base_def
  runCommandAndCaptureStdErr_def DirEntry_IsDir_def DirEntry_Name_def
  decryptArgs_def strings_ReplaceAll.simps getSopsBinaryPath_def filepath_Join_def
  emitted_def sopsPaths_def decryptCall_def

theorem only_secret_files_are_decrypted_witness:
  "fst (sopsDecrypt secretsWorld [''/data/stacks/billing/billing-stack/docker-compose.yml'']
          None []) = None
   \<and> calls (emitted [] (sopsDecrypt secretsWorld
               [''/data/stacks/billing/billing-stack/docker-compose.yml''] None []))
       = [(''/app/sops'', [''--output'', ''app.yml'', ''--decrypt'', ''app.sops.yml''],
           ''/data/stacks/billing/billing-stack'')]
   \<and> filepath_Match ''*.sops.*'' ''app.sops.yml''
   \<and> \<not> filepath_Match ''*.sops.*'' ''docker-compose.yml''
   \<and> strings_ReplaceAll ''docker-compose.prod.sops.yml'' ''.sops.'' ''.''
       = ''docker-compose.prod.yml''"
proof -
  let ?run = "sopsDecrypt secretsWorld
                [''/data/stacks/billing/billing-stack/docker-compose.yml''] None []"
  have ok: "fst ?run = None"
    by (simp add: sopsDecrypt_eval)
  have found: "sopsPaths (walked (emitted [] ?run))
                 = [''/data/stacks/billing/billing-stack/app.sops.yml'']"
    by (simp add: sopsDecrypt_eval)
  have call: "decryptCall secretsWorld ''/data/stacks/billing/billing-stack/app.sops.yml''
      = (''/app/sops'', [''--output'', ''app.yml'', ''--decrypt'', ''app.sops.yml''],
           ''/data/stacks/billing/billing-stack'')"
    by (simp add: sopsDecrypt_eval)
  have m: "filepath_Match ''*.sops.*'' ''app.sops.yml''"
    "\<not> filepath_Match ''*.sops.*'' ''docker-compose.yml''"
    by simp_all
  have free: "\<not> sublist ''.sops.'' (''docker-compose.prod'' @ ''.sops'')"
    "\<not> sublist ''.sops.'' ''yml''"
    by (simp_all add: sublist_Cons_right)
  note T = only_secret_files_are_decrypted [of "[]" secretsWorld
        "[''/data/stacks/billing/billing-stack/docker-compose.yml'']" None
        "''/data/stacks/billing/billing-stack/app.sops.yml''" "[]" "''app.sops.yml''"
        "''docker-compose.prod''" "''yml''"]
  have "calls (emitted [] ?run) = map (decryptCall secretsWorld) (sopsPaths (walked (emitted [] ?run)))"
    using T [THEN conjunct2, THEN conjunct1] ok by blast
  then have c: "calls (emitted [] ?run)
       = [(''/app/sops'', [''--output'', ''app.yml'', ''--decrypt'', ''app.sops.yml''],
           ''/data/stacks/billing/billing-stack'')]"
    unfolding found by (simp add: call)
  have "strings_ReplaceAll (''docker-compose.prod'' @ ''.sops.'' @ ''yml'') ''.sops.'' ''.''
      = ''docker-compose.prod'' @ ''.'' @ ''yml''"
    using T [THEN conjunct2, THEN conjunct2, THEN conjunct2, THEN conjunct2, THEN conjunct2,
        THEN conjunct2]
      free by blast
  then have r: "strings_ReplaceAll ''docker-compose.prod.sops.yml'' ''.sops.'' ''.''
      = ''docker-compose.prod.yml''"
    by simp
  show ?thesis
    using ok c m r by blast
qed

text \<open>
  The claim as the specification has it, that only regular files are passed to the decrypt
  tool, fails: the callback of the walk asks \<open>IsDir\<close> only. Where the walk meets a symbolic
  link \<open>shared.sops.env\<close>, \<open>sopsDecrypt\<close> runs the decrypt tool on it.
\<close>

theorem symbolic_link_is_decrypted:
  "walked (emitted [] (sopsDecrypt linkWorld
             [''/data/stacks/billing/billing-stack/docker-compose.yml''] None []))
     = [VisitEntry ''/data/stacks/billing/billing-stack'' Directory,
        VisitEntry ''/data/stacks/billing/billing-stack/shared.sops.env'' Symlink]
   \<and> calls (emitted [] (sopsDecrypt linkWorld
               [''/data/stacks/billing/billing-stack/docker-compose.yml''] None []))
       = [(''/app/sops'', [''--output'', ''shared.env'', ''--decrypt'', ''shared.sops.env''],
           ''/data/stacks/billing/billing-stack'')]
   \<and> Symlink \<noteq> RegularFile"
  by (simp add: sopsDecrypt_eval)

section \<open>What the steps of a run add to the trace\<close>

lemma proj_simps [simp]:
  "queries [] = []" "queries (e # tr) = queryOf e @ queries tr"
  "queries (xs @ ys) = queries xs @ queries ys"
  "updates [] = []" "updates (e # tr) = updateOf e @ updates tr"
  "updates (xs @ ys) = updates xs @ updates ys"
  "swarmDeploys [] = []" "swarmDeploys (e # tr) = swarmDeployOf e @ swarmDeploys tr"
  "swarmDeploys (xs @ ys) = swarmDeploys xs @ swarmDeploys ys"
  "deployOpts [] = []" "deployOpts (e # tr) = deployOptsOf e @ deployOpts tr"
  "deployOpts (xs @ ys) = deployOpts xs @ deployOpts ys"
  by (simp_all add: queries_def updates_def swarmDeploys_def deployOpts_def)

lemma queries_absent [simp]: "CheckRunningServiceK \<notin> kinds d \<Longrightarrow> queries d = []"
proof (induction d)
  case Nil
  then show ?case by simp
next
  case (Cons e d)
  then show ?case by (cases e) auto
qed

lemma updates_absent [simp]: "UpdateServiceK \<notin> kinds d \<Longrightarrow> updates d = []"
proof (induction d)
  case Nil
  then show ?case by simp
next
  case (Cons e d)
  then show ?case by (cases e) auto
qed

lemma swarmDeploys_absent [simp]: "DeploySwarmStackK \<notin> kinds d \<Longrightarrow> swarmDeploys d = []"
proof (induction d)
  case Nil
  then show ?case by simp
next
  case (Cons e d)
  then show ?case by (cases e) auto
qed

lemma deployOpts_absent [simp]: "DeployK \<notin> kinds d \<Longrightarrow> deployOpts d = []"
proof (induction d)
  case Nil
  then show ?case by simp
next
  case (Cons e d)
  then show ?case by (cases e) auto
qed

lemma calls_absent [simp]: "CmdRunK \<notin> kinds d \<Longrightarrow> calls d = []"
  by (rule calls_no_CmdRun)

subsection \<open>Login and logout\<close>

lemma dockerLogin_fst [simp]: "fst (dockerLogin w rs tr) = None"
  using dockerLogin_emits [of w rs tr] by auto

lemma dockerLogin_snd: "snd (dockerLogin w rs tr) = tr @ emitted tr (dockerLogin w rs tr)"
  using dockerLogin_emits [of w rs tr] by auto

lemma dockerLogin_kinds [simp]:
  "k \<notin> {LogK, CmdRunK} \<Longrightarrow> k \<notin> kinds (emitted tr (dockerLogin w rs tr))"
  using dockerLogin_emits [of w rs tr] by auto

lemma dockerLogin_calls [simp]:
  "calls (emitted tr (dockerLogin w rs tr)) = map (loginCall w) (filter threeSegments rs)"
  using dockerLogin_emits [of w rs tr] by auto

lemma dockerLogout_fst [simp]: "fst (dockerLogout w rs tr) = None"
  using dockerLogout_emits [of w rs tr] by auto

lemma dockerLogout_snd: "snd (dockerLogout w rs tr) = tr @ emitted tr (dockerLogout w rs tr)"
  using dockerLogout_emits [of w rs tr] by auto

lemma dockerLogout_kinds [simp]:
  "k \<notin> {LogK, CmdRunK} \<Longrightarrow> k \<notin> kinds (emitted tr (dockerLogout w rs tr))"
  using dockerLogout_emits [of w rs tr] by auto

lemma dockerLogout_calls [simp]:
  "calls (emitted tr (dockerLogout w rs tr)) = map (logoutCall w) (filter threeSegments rs)"
  using dockerLogout_emits [of w rs tr] by auto

subsection \<open>Decryption\<close>

lemma sopsDecrypt_snd:
  "snd (sopsDecrypt w fps env tr) = tr @ emitted tr (sopsDecrypt w fps env tr)"
  using sopsDecrypt_emits [of w fps env tr] by (metis emitted_append snd_conv)

lemma sopsDecrypt_kinds [simp]:
  "k \<notin> {LogK, WalkDirK, CmdRunK} \<Longrightarrow> k \<notin> kinds (emitted tr (sopsDecrypt w fps env tr))"
proof -
  obtain d where "sopsDecrypt w fps env tr = (fst (sopsDecrypt w fps env tr), tr @ d)"
    "kinds d \<subseteq> {LogK, WalkDirK, CmdRunK}"
    using sopsDecrypt_emits by blast
  then have "kinds (emitted tr (sopsDecrypt w fps env tr)) \<subseteq> {LogK, WalkDirK, CmdRunK}"
    by (metis emitted_append)
  then show "k \<notin> {LogK, WalkDirK, CmdRunK} \<Longrightarrow> k \<notin> kinds (emitted tr (sopsDecrypt w fps env tr))"
    by blast
qed

subsection \<open>The workspace\<close>

lemma stackCreate_snd:
  "snd (stackCreate w opts mp cp tr) = tr @ emitted tr (stackCreate w opts mp cp tr)"
  by (simp add: stackCreate_def Let_def emitted_def)

lemma stackCreate_kinds [simp]:
  "k \<notin> {LogK, OsStatK, OsRemoveAllK, OsMkdirAllK, PlainCloneContextK}
   \<Longrightarrow> k \<notin> kinds (emitted tr (stackCreate w opts mp cp tr))"
  by (auto simp: stackCreate_def Let_def emitted_def)

lemma stackCreate_fst:
  "fst (stackCreate w opts mp cp tr) = Some e \<Longrightarrow> e = errDeployComposeFailure"
  by (auto simp: stackCreate_def Let_def split: if_splits)

subsection \<open>Forced updates\<close>

lemma updateLoop_emits:
  "\<exists>d. updateLoop w rs flag ids tr = tr @ d \<and> kinds d \<subseteq> {UpdateServiceK}
       \<and> updates d = filter (\<lambda>i. i \<in> rs) ids"
proof (induction ids arbitrary: tr)
  case Nil
  show ?case by (intro exI [of _ "[]"]) simp
next
  case (Cons i ids)
  show ?case
  proof (cases "i \<in> rs")
    case True
    define ev where "ev = UpdateService i flag (updateService w tr i flag)"
    obtain d where "updateLoop w rs flag ids (tr @ [ev]) = (tr @ [ev]) @ d"
      "kinds d \<subseteq> {UpdateServiceK}" "updates d = filter (\<lambda>i. i \<in> rs) ids"
      using Cons.IH by blast
    with True show ?thesis
      by (intro exI [of _ "ev # d"]) (simp add: ev_def)
  next
    case False
    obtain d where "updateLoop w rs flag ids tr = tr @ d"
      "kinds d \<subseteq> {UpdateServiceK}" "updates d = filter (\<lambda>i. i \<in> rs) ids"
      using Cons.IH by blast
    with False show ?thesis
      by (intro exI [of _ d]) simp
  qed
qed

lemma forceUpdateServices_eq:
  "\<exists>d. forceUpdateServices w cmd fu rs flag tr
          = ((if fu then (case checkRunningService w tr (ProjectName cmd) of
                            Inl e \<Rightarrow> Some e | Inr post \<Rightarrow> None)
              else None), tr @ d)
       \<and> kinds d \<subseteq> {CheckRunningServiceK, UpdateServiceK}
       \<and> queries d = (if fu then [checkRunningService w tr (ProjectName cmd)] else [])
       \<and> updates d = (if fu then (case checkRunningService w tr (ProjectName cmd) of
                                    Inl e \<Rightarrow> [] | Inr post \<Rightarrow> filter (\<lambda>i. i \<in> rs) post)
                       else [])"
proof (cases fu)
  case False
  then show ?thesis by (intro exI [of _ "[]"]) (simp add: forceUpdateServices_def)
next
  case True
  define q where "q = checkRunningService w tr (ProjectName cmd)"
  show ?thesis
  proof (cases q)
    case (Inl e)
    with True show ?thesis
      by (intro exI [of _ "[CheckRunningService (ProjectName cmd) q]"])
         (simp add: forceUpdateServices_def q_def [symmetric])
  next
    case (Inr post)
    obtain d where d: "updateLoop w rs flag post (tr @ [CheckRunningService (ProjectName cmd) q])
        = (tr @ [CheckRunningService (ProjectName cmd) q]) @ d"
      "kinds d \<subseteq> {UpdateServiceK}" "updates d = filter (\<lambda>i. i \<in> rs) post"
      using updateLoop_emits by blast
    have u: "UpdateServiceK \<notin> kinds [CheckRunningService (ProjectName cmd) q]" by simp
    have c: "CheckRunningServiceK \<notin> kinds d" using d(2) by auto
    from True Inr d u c show ?thesis
      by (intro exI [of _ "CheckRunningService (ProjectName cmd) q # d"])
         (auto simp add: forceUpdateServices_def q_def [symmetric])
  qed
qed

lemma forceUpdateServices_fst [simp]:
  "fst (forceUpdateServices w cmd fu rs flag tr)
     = (if fu then (case checkRunningService w tr (ProjectName cmd) of
                      Inl e \<Rightarrow> Some e | Inr post \<Rightarrow> None)
        else None)"
  using forceUpdateServices_eq [of w cmd fu rs flag tr] by auto

lemma forceUpdateServices_snd:
  "snd (forceUpdateServices w cmd fu rs flag tr)
     = tr @ emitted tr (forceUpdateServices w cmd fu rs flag tr)"
  using forceUpdateServices_eq [of w cmd fu rs flag tr] by auto

lemma forceUpdateServices_kinds [simp]:
  "k \<notin> {CheckRunningServiceK, UpdateServiceK}
   \<Longrightarrow> k \<notin> kinds (emitted tr (forceUpdateServices w cmd fu rs flag tr))"
  using forceUpdateServices_eq [of w cmd fu rs flag tr] by auto

lemma forceUpdateServices_queries [simp]:
  "queries (emitted tr (forceUpdateServices w cmd fu rs flag tr))
     = (if fu then [checkRunningService w tr (ProjectName cmd)] else [])"
  using forceUpdateServices_eq [of w cmd fu rs flag tr] by auto

lemma forceUpdateServices_updates [simp]:
  "updates (emitted tr (forceUpdateServices w cmd fu rs flag tr))
     = (if fu then (case checkRunningService w tr (ProjectName cmd) of
                      Inl e \<Rightarrow> [] | Inr post \<Rightarrow> filter (\<lambda>i. i \<in> rs) post)
        else [])"
  using forceUpdateServices_eq [of w cmd fu rs flag tr] by auto

subsection \<open>The compose deployment of deploy.go\<close>

lemma deployCompose_snd:
  "snd (deployCompose w cmd cp tr) = tr @ emitted tr (deployCompose w cmd cp tr)"
  by (auto simp: deployCompose_def Let_def split_beta sopsDecrypt_snd
      split: option.splits)

lemma deployCompose_fst:
  "fst (deployCompose w cmd cp tr) = Some e \<Longrightarrow> e = errDeployComposeFailure"
  by (auto simp: deployCompose_def Let_def split_beta split: option.splits if_splits)

lemma deployCompose_kinds [simp]:
  "k \<notin> {LogK, NewComposeDeployerK, WalkDirK, CmdRunK, DeployK}
   \<Longrightarrow> k \<notin> kinds (emitted tr (deployCompose w cmd cp tr))"
  by (auto simp: deployCompose_def Let_def split_beta sopsDecrypt_snd
      split: option.splits)

section \<open>The runs of the commands\<close>

lemma from_snd: "snd p = tr @ d \<Longrightarrow> emitted tr p = d"
  by (simp add: emitted_def)

lemma emitted_after: "t = tr @ d \<Longrightarrow> emitted tr (r, t @ e) = d @ e"
  by (simp add: emitted_def)

lemma dockerLogin_kinds_sub: "kinds (emitted tr (dockerLogin w rs tr)) \<subseteq> {LogK, CmdRunK}"
  using dockerLogin_emits [of w rs tr] by auto

lemma dockerLogout_kinds_sub: "kinds (emitted tr (dockerLogout w rs tr)) \<subseteq> {LogK, CmdRunK}"
  using dockerLogout_emits [of w rs tr] by auto

subsection \<open>The workspace block and what follows it\<close>

lemma stackCreate_kinds_sub:
  "kinds (emitted tr (stackCreate w opts mp cp tr)) \<subseteq> insert LogK setupKinds"
  by (auto simp: stackCreate_def Let_def emitted_def setupKinds_def)

lemma fromWorkspace_eq:
  "fromWorkspace w cmd opts mp cp rest tr
     = (if Keep cmd then rest tr
        else if fst (stackCreate w opts mp cp tr) = None
        then rest (tr @ emitted tr (stackCreate w opts mp cp tr))
        else (Some errDeployComposeFailure, tr @ emitted tr (stackCreate w opts mp cp tr)))"
  by (auto simp: fromWorkspace_def split_beta stackCreate_snd [symmetric]
      split: option.splits dest: stackCreate_fst)

lemma fromWorkspace_snd:
  assumes "\<And>t. snd (rest t) = t @ emitted t (rest t)"
  shows "snd (fromWorkspace w cmd opts mp cp rest tr)
           = tr @ emitted tr (fromWorkspace w cmd opts mp cp rest tr)"
proof -
  let ?c = "emitted tr (stackCreate w opts mp cp tr)"
  have "snd (rest (tr @ ?c)) = tr @ (?c @ emitted (tr @ ?c) (rest (tr @ ?c)))"
    using assms [of "tr @ ?c"] by simp
  then have "emitted tr (rest (tr @ ?c)) = ?c @ emitted (tr @ ?c) (rest (tr @ ?c))"
    by (rule from_snd)
  then show ?thesis
    using assms [of tr] assms [of "tr @ ?c"] by (simp add: fromWorkspace_eq)
qed

text \<open>A property of the result and of the added events carries over from the rest of the
  function to the block followed by the rest, when the events of the block do not disturb it
  and it holds when the block fails.\<close>

lemma fromWorkspace_lift:
  assumes snd: "\<And>t. snd (rest t) = t @ emitted t (rest t)"
    and rest: "\<And>t. Q (fst (rest t)) (emitted t (rest t))"
    and pre: "\<And>c r d. \<not> Keep cmd \<Longrightarrow> kinds c \<subseteq> insert LogK setupKinds \<Longrightarrow> Q r d \<Longrightarrow> Q r (c @ d)"
    and fail: "\<And>c. \<not> Keep cmd \<Longrightarrow> kinds c \<subseteq> insert LogK setupKinds
                 \<Longrightarrow> Q (Some errDeployComposeFailure) c"
  shows "Q (fst (fromWorkspace w cmd opts mp cp rest tr))
           (emitted tr (fromWorkspace w cmd opts mp cp rest tr))"
proof (cases "Keep cmd")
  case True
  then show ?thesis using rest [of tr] by (simp add: fromWorkspace_eq)
next
  case False
  let ?c = "emitted tr (stackCreate w opts mp cp tr)"
  have kc: "kinds ?c \<subseteq> insert LogK setupKinds"
    by (rule stackCreate_kinds_sub)
  show ?thesis
  proof (cases "fst (stackCreate w opts mp cp tr) = None")
    case True
    have "snd (rest (tr @ ?c)) = tr @ (?c @ emitted (tr @ ?c) (rest (tr @ ?c)))"
      using snd [of "tr @ ?c"] by simp
    then have "emitted tr (rest (tr @ ?c)) = ?c @ emitted (tr @ ?c) (rest (tr @ ?c))"
      by (rule from_snd)
    then show ?thesis
      using False True pre [OF False kc rest [of "tr @ ?c"]] by (simp add: fromWorkspace_eq)
  next
    case stop: False
    then show ?thesis
      using False fail [OF False kc] by (auto simp: fromWorkspace_eq)
  qed
qed


lemma fromWorkspace_kinds:
  assumes snd: "\<And>t. snd (rest t) = t @ emitted t (rest t)"
    and rest: "\<And>t. kinds (emitted t (rest t)) \<subseteq> K"
  shows "kinds (emitted tr (fromWorkspace w cmd opts mp cp rest tr))
           \<subseteq> (if Keep cmd then {} else insert LogK setupKinds) \<union> K"
proof -
  define Q where
    "Q = (\<lambda>(r::error option) d. kinds d \<subseteq> (if Keep cmd then {} else insert LogK setupKinds) \<union> K)"
  have "Q (fst (fromWorkspace w cmd opts mp cp rest tr))
           (emitted tr (fromWorkspace w cmd opts mp cp rest tr))"
    using snd
  proof (rule fromWorkspace_lift)
    show "Q (fst (rest t)) (emitted t (rest t))" for t
      using rest [of t] by (auto simp: Q_def)
  qed (auto simp: Q_def)
  then show ?thesis by (simp add: Q_def)
qed

text \<open>The same for the start of a run up to the check of the repository URL, whose events
  are log lines and login commands, and for the deferred logout at its end.\<close>

lemma prelude_lift:
  assumes body: "body = (if bad then (Some errDeployComposeFailure, tr @ p @ [Log ErrorLevel])
                         else stage (tr @ p @ [Log InfoLevel]))"
    and kp: "kinds p \<subseteq> {LogK, CmdRunK}"
    and snd: "\<And>t. snd (stage t) = t @ emitted t (stage t)"
    and stage: "\<And>t. Q (fst (stage t)) (emitted t (stage t))"
    and pre: "\<And>c r d. kinds c \<subseteq> {LogK, CmdRunK} \<Longrightarrow> Q r d \<Longrightarrow> Q r (c @ d)"
    and fail: "\<And>c. kinds c \<subseteq> {LogK, CmdRunK} \<Longrightarrow> Q (Some errDeployComposeFailure) c"
  shows "snd body = tr @ emitted tr body \<and> Q (fst body) (emitted tr body)"
proof (cases bad)
  case True
  have "kinds (p @ [Log ErrorLevel]) \<subseteq> {LogK, CmdRunK}" using kp by simp
  from fail [OF this] show ?thesis using True body by simp
next
  case False
  let ?t = "tr @ p @ [Log InfoLevel]"
  have s: "snd (stage ?t) = tr @ ((p @ [Log InfoLevel]) @ emitted ?t (stage ?t))"
    using snd [of ?t] by simp
  then have e: "emitted tr (stage ?t) = (p @ [Log InfoLevel]) @ emitted ?t (stage ?t)"
    by (rule from_snd)
  have "kinds (p @ [Log InfoLevel]) \<subseteq> {LogK, CmdRunK}" using kp by simp
  from pre [OF this stage [of ?t]] show ?thesis
    using False body s e by simp
qed

lemma logout_lift:
  assumes run: "run = (fst body, snd (dockerLogout w rs (snd body)))"
    and snd: "snd body = tr @ emitted tr body"
    and body: "Q (fst body) (emitted tr body)"
    and post: "\<And>c r d. kinds c \<subseteq> {LogK, CmdRunK} \<Longrightarrow> Q r d \<Longrightarrow> Q r (d @ c)"
  shows "Q (fst run) (emitted tr run)"
proof -
  let ?o = "emitted (snd body) (dockerLogout w rs (snd body))"
  have k: "kinds ?o \<subseteq> {LogK, CmdRunK}"
    by (rule dockerLogout_kinds_sub)
  have "snd run = tr @ (emitted tr body @ ?o)"
    using run snd dockerLogout_snd [of w rs "snd body"] by simp
  then have "emitted tr run = emitted tr body @ ?o" by (rule from_snd)
  then show ?thesis using post [OF k body] run by simp
qed

lemma loginEvents_kinds:
  "kinds (Log InfoLevel # emitted t (dockerLogin w rs t) @ (if b then [Log InfoLevel] else []))
     \<subseteq> {LogK, CmdRunK}"
  using dockerLogin_kinds_sub [of t w rs] by auto

subsection \<open>\<open>DeployCommand.Run\<close> of deploy.go\<close>

lemma deployCompose_kinds_sub:
  "kinds (emitted t (deployCompose w cmd cp t))
     \<subseteq> {LogK, NewComposeDeployerK, WalkDirK, CmdRunK, DeployK}"
  using deployCompose_kinds [of _ t w cmd cp] by blast

lemma DeployCommand_body_eq:
  "DeployCommand_body w cmd tr
     = (if strings_LastIndex (GitRepository cmd) (CHR ''/'') = - 1
        then (Some errDeployComposeFailure,
              tr @ (Log InfoLevel
                    # emitted (tr @ [Log InfoLevel])
                        (dockerLogin w (Registry cmd) (tr @ [Log InfoLevel]))
                    @ (if User cmd \<noteq> [] \<and> Password cmd \<noteq> [] then [Log InfoLevel] else []))
                 @ [Log ErrorLevel])
        else fromWorkspace w cmd (gitCloneOptions cmd 1 InvalidTagMode)
               (makeWorkingDir (Destination cmd) (ProjectName cmd))
               (filepath_Join [makeWorkingDir (Destination cmd) (ProjectName cmd),
                  repositoryNameOf cmd (strings_LastIndex (GitRepository cmd) (CHR ''/''))])
               (deployCompose w cmd
                  (filepath_Join [makeWorkingDir (Destination cmd) (ProjectName cmd),
                     repositoryNameOf cmd (strings_LastIndex (GitRepository cmd) (CHR ''/''))]))
               (tr @ (Log InfoLevel
                    # emitted (tr @ [Log InfoLevel])
                        (dockerLogin w (Registry cmd) (tr @ [Log InfoLevel]))
                    @ (if User cmd \<noteq> [] \<and> Password cmd \<noteq> [] then [Log InfoLevel] else []))
                 @ [Log InfoLevel]))"
  by (simp add: DeployCommand_body_def Let_def split_beta dockerLogin_snd)

text \<open>What holds for the compose deployment holds for the whole run.\<close>

lemma DeployCommand_Run_lift:
  assumes stage: "\<And>cp t. Q (fst (deployCompose w cmd cp t)) (emitted t (deployCompose w cmd cp t))"
    and pre: "\<And>c r d. kinds c \<subseteq> {LogK, CmdRunK} \<Longrightarrow> Q r d \<Longrightarrow> Q r (c @ d)"
    and post: "\<And>c r d. kinds c \<subseteq> {LogK, CmdRunK} \<Longrightarrow> Q r d \<Longrightarrow> Q r (d @ c)"
    and create: "\<And>c r d. \<not> Keep cmd \<Longrightarrow> kinds c \<subseteq> insert LogK setupKinds \<Longrightarrow> Q r d
                   \<Longrightarrow> Q r (c @ d)"
    and fail: "\<And>c. kinds c \<inter> {DeployK, CheckRunningServiceK, DeploySwarmStackK, UpdateServiceK} = {}
                 \<Longrightarrow> (Keep cmd \<longrightarrow> kinds c \<inter> setupKinds = {})
                 \<Longrightarrow> Q (Some errDeployComposeFailure) c"
  shows "Q (fst (DeployCommand_Run w cmd tr)) (emitted tr (DeployCommand_Run w cmd tr))"
proof -
  let ?mp = "makeWorkingDir (Destination cmd) (ProjectName cmd)"
  let ?cp = "filepath_Join [?mp,
                  repositoryNameOf cmd (strings_LastIndex (GitRepository cmd) (CHR ''/''))]"
  let ?stage = "fromWorkspace w cmd (gitCloneOptions cmd 1 InvalidTagMode) ?mp ?cp
                  (deployCompose w cmd ?cp)"
  have s: "snd (?stage t) = t @ emitted t (?stage t)" for t
    by (rule fromWorkspace_snd [OF deployCompose_snd])
  have q: "Q (fst (?stage t)) (emitted t (?stage t))" for t
  proof (rule fromWorkspace_lift [OF deployCompose_snd])
    show "Q (fst (deployCompose w cmd ?cp t)) (emitted t (deployCompose w cmd ?cp t))" for t
      by (rule stage)
    show "\<not> Keep cmd \<Longrightarrow> kinds c \<subseteq> insert LogK setupKinds \<Longrightarrow> Q r d \<Longrightarrow> Q r (c @ d)" for c r d
      by (rule create)
    show "\<not> Keep cmd \<Longrightarrow> kinds c \<subseteq> insert LogK setupKinds \<Longrightarrow> Q (Some errDeployComposeFailure) c"
      for c
      by (rule fail) (auto simp: setupKinds_def)
  qed
  have b: "snd (DeployCommand_body w cmd tr) = tr @ emitted tr (DeployCommand_body w cmd tr)
        \<and> Q (fst (DeployCommand_body w cmd tr)) (emitted tr (DeployCommand_body w cmd tr))"
  proof (rule prelude_lift [OF DeployCommand_body_eq loginEvents_kinds s q pre])
    show "kinds c \<subseteq> {LogK, CmdRunK} \<Longrightarrow> Q (Some errDeployComposeFailure) c" for c
      by (rule fail) (auto simp: setupKinds_def)
  qed
  show ?thesis
  proof (rule logout_lift [where body = "DeployCommand_body w cmd tr" and w = w
        and rs = "Registry cmd"])
    show "DeployCommand_Run w cmd tr
        = (fst (DeployCommand_body w cmd tr),
           snd (dockerLogout w (Registry cmd) (snd (DeployCommand_body w cmd tr))))"
      by (simp add: DeployCommand_Run_def split_beta)
  qed (use b post in auto)
qed

lemma run_lift:
  assumes body: "body = (if bad then (Some errDeployComposeFailure, tr @ p @ [Log ErrorLevel])
                         else stage (tr @ p @ [Log InfoLevel]))"
    and kp: "kinds p \<subseteq> {LogK, CmdRunK}"
    and run: "run = (fst body, snd (dockerLogout w rs (snd body)))"
    and snd: "\<And>t. snd (stage t) = t @ emitted t (stage t)"
    and stage: "\<And>t. Q (fst (stage t)) (emitted t (stage t))"
    and pre: "\<And>c r d. kinds c \<subseteq> {LogK, CmdRunK} \<Longrightarrow> Q r d \<Longrightarrow> Q r (c @ d)"
    and post: "\<And>c r d. kinds c \<subseteq> {LogK, CmdRunK} \<Longrightarrow> Q r d \<Longrightarrow> Q r (d @ c)"
    and fail: "\<And>c. kinds c \<subseteq> {LogK, CmdRunK} \<Longrightarrow> Q (Some errDeployComposeFailure) c"
  shows "Q (fst run) (emitted tr run)"
proof -
  have b: "snd body = tr @ emitted tr body \<and> Q (fst body) (emitted tr body)"
    by (rule prelude_lift [OF body kp snd stage pre fail])
  show ?thesis
    by (rule logout_lift [OF run]) (use b post in auto)
qed

subsection \<open>The swarm deployment\<close>

lemma swarmStack_ex:
  "\<exists>d. snd (swarmStack w cmd cp fu rs flag tr) = tr @ d
      \<and> kinds d \<subseteq> {DeploySwarmStackK, CheckRunningServiceK, UpdateServiceK}
      \<and> tailFacts fu rs (fst (swarmStack w cmd cp fu rs flag tr))
               (queries d) (updates d) (swarmDeploys d)"
proof -
  have k: "kinds (emitted t (forceUpdateServices w cmd fu rs flag t))
             \<subseteq> {CheckRunningServiceK, UpdateServiceK}" for t
    using forceUpdateServices_kinds [of _ t w cmd fu rs flag] by blast
  show ?thesis
    using k [of "tr @ [DeploySwarmStack cmd cp None]"]
    by (auto simp: swarmStack_def Let_def forceUpdateServices_snd tailFacts_def
        split: option.splits sum.splits)
qed

lemma swarmStack_snd:
  "snd (swarmStack w cmd cp fu rs flag tr) = tr @ emitted tr (swarmStack w cmd cp fu rs flag tr)"
  using swarmStack_ex [of w cmd cp fu rs flag tr] by (auto simp: emitted_def)

lemma swarmStack_kinds:
  "kinds (emitted tr (swarmStack w cmd cp fu rs flag tr))
     \<subseteq> {DeploySwarmStackK, CheckRunningServiceK, UpdateServiceK}"
  using swarmStack_ex [of w cmd cp fu rs flag tr] by (auto simp: from_snd)

lemma swarmStack_facts:
  "tailFacts fu rs (fst (swarmStack w cmd cp fu rs flag tr))
     (queries (emitted tr (swarmStack w cmd cp fu rs flag tr)))
     (updates (emitted tr (swarmStack w cmd cp fu rs flag tr)))
     (swarmDeploys (emitted tr (swarmStack w cmd cp fu rs flag tr)))"
  using swarmStack_ex [of w cmd cp fu rs flag tr] by (auto simp: from_snd)

lemma sopsDecrypt_kinds_sub:
  "kinds (emitted tr (sopsDecrypt w fps env tr)) \<subseteq> {LogK, WalkDirK, CmdRunK}"
  using sopsDecrypt_kinds [of _ tr w fps env] by blast

lemma swarmSecrets_eq:
  "swarmSecrets w cmd cp fu rs tr
     = (if fst (sopsDecrypt w (composeFilePathsOf cmd cp) (Env cmd) tr) = None
        then swarmStack w cmd cp fu rs None
               (tr @ emitted tr (sopsDecrypt w (composeFilePathsOf cmd cp) (Env cmd) tr))
        else (Some errDeployComposeFailure,
              tr @ emitted tr (sopsDecrypt w (composeFilePathsOf cmd cp) (Env cmd) tr)
                 @ [Log ErrorLevel]))"
  by (auto simp: swarmSecrets_def split_beta sopsDecrypt_snd split: option.splits)

lemma swarmSecrets_ex:
  "\<exists>d. snd (swarmSecrets w cmd cp fu rs tr) = tr @ d
      \<and> kinds d \<subseteq> {LogK, WalkDirK, CmdRunK, DeploySwarmStackK, CheckRunningServiceK,
                     UpdateServiceK}
      \<and> tailFacts fu rs (fst (swarmSecrets w cmd cp fu rs tr))
               (queries d) (updates d) (swarmDeploys d)"
proof -
  let ?s = "emitted tr (sopsDecrypt w (composeFilePathsOf cmd cp) (Env cmd) tr)"
  have ks: "kinds ?s \<subseteq> {LogK, WalkDirK, CmdRunK}" by (rule sopsDecrypt_kinds_sub)
  then have z: "queries ?s = []" "updates ?s = []" "swarmDeploys ?s = []" by auto
  show ?thesis
  proof (cases "fst (sopsDecrypt w (composeFilePathsOf cmd cp) (Env cmd) tr) = None")
    case True
    let ?d = "emitted (tr @ ?s) (swarmStack w cmd cp fu rs None (tr @ ?s))"
    have "snd (swarmSecrets w cmd cp fu rs tr) = tr @ (?s @ ?d)"
      using True swarmStack_snd [of w cmd cp fu rs None "tr @ ?s"] by (simp add: swarmSecrets_eq)
    moreover have "kinds (?s @ ?d) \<subseteq> {LogK, WalkDirK, CmdRunK, DeploySwarmStackK,
        CheckRunningServiceK, UpdateServiceK}"
      using ks swarmStack_kinds [of "tr @ ?s" w cmd cp fu rs None] by auto
    moreover have "tailFacts fu rs (fst (swarmSecrets w cmd cp fu rs tr))
               (queries (?s @ ?d)) (updates (?s @ ?d)) (swarmDeploys (?s @ ?d))"
      using True z swarmStack_facts [of fu rs w cmd cp None "tr @ ?s"]
      by (simp add: swarmSecrets_eq)
    ultimately show ?thesis by blast
  next
    case False
    have "snd (swarmSecrets w cmd cp fu rs tr) = tr @ (?s @ [Log ErrorLevel])"
      using False by (auto simp: swarmSecrets_eq)
    moreover have "kinds (?s @ [Log ErrorLevel]) \<subseteq> {LogK, WalkDirK, CmdRunK,
        DeploySwarmStackK, CheckRunningServiceK, UpdateServiceK}"
      using ks by auto
    moreover have "tailFacts fu rs (fst (swarmSecrets w cmd cp fu rs tr))
               (queries (?s @ [Log ErrorLevel])) (updates (?s @ [Log ErrorLevel]))
               (swarmDeploys (?s @ [Log ErrorLevel]))"
      using False z by (auto simp: swarmSecrets_eq tailFacts_def)
    ultimately show ?thesis by blast
  qed
qed

lemma swarmSecrets_snd:
  "snd (swarmSecrets w cmd cp fu rs tr) = tr @ emitted tr (swarmSecrets w cmd cp fu rs tr)"
  using swarmSecrets_ex [of w cmd cp fu rs tr] by (auto simp: emitted_def)

lemma swarmSecrets_kinds:
  "kinds (emitted tr (swarmSecrets w cmd cp fu rs tr))
     \<subseteq> {LogK, WalkDirK, CmdRunK, DeploySwarmStackK, CheckRunningServiceK, UpdateServiceK}"
  using swarmSecrets_ex [of w cmd cp fu rs tr] by (auto simp: from_snd)

lemma swarmSecrets_facts:
  "tailFacts fu rs (fst (swarmSecrets w cmd cp fu rs tr))
     (queries (emitted tr (swarmSecrets w cmd cp fu rs tr)))
     (updates (emitted tr (swarmSecrets w cmd cp fu rs tr)))
     (swarmDeploys (emitted tr (swarmSecrets w cmd cp fu rs tr)))"
  using swarmSecrets_ex [of w cmd cp fu rs tr] by (auto simp: from_snd)

lemma tail_to_run:
  assumes "tailFacts fu (set pre) res qs us sds" "fu = (asked \<and> pre \<noteq> [])"
  shows "runFacts asked res (Inr pre # qs) us sds"
proof (cases qs)
  case Nil
  with assms show ?thesis by (auto simp: tailFacts_def runFacts_def)
next
  case (Cons q qs')
  with assms have "qs' = []" by (simp add: tailFacts_def)
  with Cons assms show ?thesis
    by (cases q) (auto simp: tailFacts_def runFacts_def)
qed

text \<open>The workspace block keeps \<open>tailFacts\<close>: it adds no query, update or deployment.\<close>

lemma fromWorkspace_tailFacts:
  assumes snd: "\<And>t. snd (rest t) = t @ emitted t (rest t)"
    and rest: "\<And>t. tailFacts fu rs (fst (rest t)) (queries (emitted t (rest t)))
                  (updates (emitted t (rest t))) (swarmDeploys (emitted t (rest t)))"
  shows "tailFacts fu rs (fst (fromWorkspace w cmd opts mp cp rest tr))
           (queries (emitted tr (fromWorkspace w cmd opts mp cp rest tr)))
           (updates (emitted tr (fromWorkspace w cmd opts mp cp rest tr)))
           (swarmDeploys (emitted tr (fromWorkspace w cmd opts mp cp rest tr)))"
proof (rule fromWorkspace_lift
    [where Q = "\<lambda>r d. tailFacts fu rs r (queries d) (updates d) (swarmDeploys d)", OF snd rest])
  fix c :: "event list" and r d
  assume k: "kinds c \<subseteq> insert LogK setupKinds"
  then have "CheckRunningServiceK \<notin> kinds c" "UpdateServiceK \<notin> kinds c"
    "DeploySwarmStackK \<notin> kinds c"
    by (auto simp: setupKinds_def)
  then have z: "queries c = []" "updates c = []" "swarmDeploys c = []"
    by simp_all
  show "tailFacts fu rs (Some errDeployComposeFailure) (queries c) (updates c) (swarmDeploys c)"
    using z by (simp add: tailFacts_def)
  assume "tailFacts fu rs r (queries d) (updates d) (swarmDeploys d)"
  then show "tailFacts fu rs r (queries (c @ d)) (updates (c @ d)) (swarmDeploys (c @ d))"
    using z by simp
qed

lemma swarmDeploy_generic:
  assumes eq: "stage = (case checkRunningService w tr proj of
                  Inl err \<Rightarrow> (Some err, tr @ [CheckRunningService proj (Inl err)])
                | Inr ids \<Rightarrow>
                    fromWorkspace w cmd opts mp cp (rest (asked \<and> ids \<noteq> []) (set ids))
                      (tr @ CheckRunningService proj (Inr ids)
                          # (if asked \<and> ids \<noteq> [] then [Log InfoLevel] else [])))"
    and snd: "\<And>fu rs t. snd (rest fu rs t) = t @ emitted t (rest fu rs t)"
    and kinds: "\<And>fu rs t. kinds (emitted t (rest fu rs t)) \<subseteq> K"
    and facts: "\<And>fu rs t. tailFacts fu rs (fst (rest fu rs t)) (queries (emitted t (rest fu rs t)))
                  (updates (emitted t (rest fu rs t))) (swarmDeploys (emitted t (rest fu rs t)))"
  shows "\<exists>d. snd stage = tr @ d
      \<and> kinds d \<subseteq> (if Keep cmd then {} else setupKinds) \<union> insert LogK (insert CheckRunningServiceK K)
      \<and> runFacts asked (fst stage) (queries d) (updates d) (swarmDeploys d)"
proof (cases "checkRunningService w tr proj")
  case (Inl err)
  then have "stage = (Some err, tr @ [CheckRunningService proj (Inl err)])"
    using eq by simp
  then show ?thesis
    by (intro exI [of _ "[CheckRunningService proj (Inl err)]"]) (simp add: runFacts_def)
next
  case (Inr ids)
  define fu where "fu = (asked \<and> ids \<noteq> [])"
  define c where "c = CheckRunningService proj (Inr ids) # (if fu then [Log InfoLevel] else [])"
  let ?fw = "fromWorkspace w cmd opts mp cp (rest fu (set ids))"
  let ?F = "emitted (tr @ c) (?fw (tr @ c))"
  have st: "stage = ?fw (tr @ c)"
    using eq Inr by (simp add: fu_def c_def)
  have s: "snd (?fw (tr @ c)) = tr @ (c @ ?F)"
    using fromWorkspace_snd [of "rest fu (set ids)" w cmd opts mp cp "tr @ c", OF snd] by simp
  have k: "kinds ?F \<subseteq> (if Keep cmd then {} else insert LogK setupKinds) \<union> K"
    by (rule fromWorkspace_kinds [OF snd kinds])
  have t: "tailFacts fu (set ids) (fst (?fw (tr @ c))) (queries ?F) (updates ?F) (swarmDeploys ?F)"
    by (rule fromWorkspace_tailFacts [OF snd facts])
  have "runFacts asked (fst (?fw (tr @ c))) (Inr ids # queries ?F) (updates ?F) (swarmDeploys ?F)"
    using t by (rule tail_to_run) (simp add: fu_def)
  then have r: "runFacts asked (fst stage) (queries (c @ ?F)) (updates (c @ ?F))
      (swarmDeploys (c @ ?F))"
    by (simp add: st c_def)
  have "kinds (c @ ?F)
      \<subseteq> (if Keep cmd then {} else setupKinds) \<union> insert LogK (insert CheckRunningServiceK K)"
    using k by (auto simp: c_def split: if_splits)
  with s r st show ?thesis by blast
qed

lemma swarmDeploy_ex:
  "\<exists>d. snd (swarmDeploy w cmd mp cp tr) = tr @ d
      \<and> kinds d \<subseteq> (if Keep cmd then {} else setupKinds)
                    \<union> {LogK, WalkDirK, CmdRunK, DeploySwarmStackK, CheckRunningServiceK,
                        UpdateServiceK}
      \<and> runFacts True (fst (swarmDeploy w cmd mp cp tr)) (queries d) (updates d)
          (swarmDeploys d)"
proof -
  have "\<exists>d. snd (swarmDeploy w cmd mp cp tr) = tr @ d
      \<and> kinds d \<subseteq> (if Keep cmd then {} else setupKinds)
          \<union> insert LogK (insert CheckRunningServiceK
              {LogK, WalkDirK, CmdRunK, DeploySwarmStackK, CheckRunningServiceK, UpdateServiceK})
      \<and> runFacts True (fst (swarmDeploy w cmd mp cp tr)) (queries d) (updates d)
          (swarmDeploys d)"
  proof (rule swarmDeploy_generic
      [where rest = "\<lambda>fu rs. swarmSecrets w cmd cp fu rs" and proj = "ProjectName cmd"
        and opts = "gitCloneOptions cmd 100 InvalidTagMode" and mp = mp and cp = cp])
    show "swarmDeploy w cmd mp cp tr
        = (case checkRunningService w tr (ProjectName cmd) of
             Inl err \<Rightarrow> (Some err, tr @ [CheckRunningService (ProjectName cmd) (Inl err)])
           | Inr ids \<Rightarrow>
               fromWorkspace w cmd (gitCloneOptions cmd 100 InvalidTagMode) mp cp
                 (swarmSecrets w cmd cp (True \<and> ids \<noteq> []) (set ids))
                 (tr @ CheckRunningService (ProjectName cmd) (Inr ids)
                    # (if True \<and> ids \<noteq> [] then [Log InfoLevel] else [])))"
      by (simp add: swarmDeploy_def Let_def split: sum.splits)
  qed (rule swarmSecrets_snd swarmSecrets_kinds swarmSecrets_facts)+
  then show ?thesis by (simp add: insert_absorb)
qed

lemma swarmDeploy_v2_ex:
  "\<exists>d. snd (swarmDeploy_v2 w cmd mp cp tr) = tr @ d
      \<and> kinds d \<subseteq> (if Keep cmd then {} else setupKinds)
                    \<union> {LogK, DeploySwarmStackK, CheckRunningServiceK, UpdateServiceK}
      \<and> runFacts (ForceRecreateStack cmd) (fst (swarmDeploy_v2 w cmd mp cp tr)) (queries d)
          (updates d) (swarmDeploys d)"
proof -
  have "\<exists>d. snd (swarmDeploy_v2 w cmd mp cp tr) = tr @ d
      \<and> kinds d \<subseteq> (if Keep cmd then {} else setupKinds)
          \<union> insert LogK (insert CheckRunningServiceK
              {DeploySwarmStackK, CheckRunningServiceK, UpdateServiceK})
      \<and> runFacts (ForceRecreateStack cmd) (fst (swarmDeploy_v2 w cmd mp cp tr)) (queries d)
          (updates d) (swarmDeploys d)"
  proof (rule swarmDeploy_generic
      [where rest = "\<lambda>fu rs. swarmStack w cmd cp fu rs (Some fu)" and proj = "ProjectName cmd"
        and opts = "gitCloneOptions cmd 1 NoTags" and mp = mp and cp = cp])
    show "swarmDeploy_v2 w cmd mp cp tr
        = (case checkRunningService w tr (ProjectName cmd) of
             Inl err \<Rightarrow> (Some err, tr @ [CheckRunningService (ProjectName cmd) (Inl err)])
           | Inr ids \<Rightarrow>
               fromWorkspace w cmd (gitCloneOptions cmd 1 NoTags) mp cp
                 (swarmStack w cmd cp (ForceRecreateStack cmd \<and> ids \<noteq> []) (set ids)
                    (Some (ForceRecreateStack cmd \<and> ids \<noteq> [])))
                 (tr @ CheckRunningService (ProjectName cmd) (Inr ids)
                    # (if ForceRecreateStack cmd \<and> ids \<noteq> [] then [Log InfoLevel] else [])))"
      by (simp add: swarmDeploy_v2_def Let_def split: sum.splits)
  qed (rule swarmStack_snd swarmStack_kinds swarmStack_facts)+
  then show ?thesis by (simp add: insert_absorb insert_commute)
qed

lemma prelude_shape:
  assumes body: "body = (if bad then (Some errDeployComposeFailure, tr @ p @ [Log ErrorLevel])
                         else stage (tr @ p @ [Log InfoLevel]))"
    and snd: "\<And>t. snd (stage t) = t @ emitted t (stage t)"
  shows "\<exists>rest. snd body = tr @ p @ rest"
proof (cases bad)
  case True
  then show ?thesis using body by simp
next
  case False
  then show ?thesis using body snd [of "tr @ p @ [Log InfoLevel]"] by simp
qed

lemma logout_emitted:
  assumes run: "run = (fst body, snd (dockerLogout w rs (snd body)))"
    and snd: "snd body = tr @ emitted tr body"
  shows "emitted tr run = emitted tr body @ emitted (snd body) (dockerLogout w rs (snd body))"
proof -
  have "snd run = tr @ (emitted tr body @ emitted (snd body) (dockerLogout w rs (snd body)))"
    using run snd dockerLogout_snd [of w rs "snd body"] by simp
  then show ?thesis by (rule from_snd)
qed

text \<open>A run that logs in first and logs out last: its events start with the login commands
  and end with the logout commands.\<close>

lemma bracket_shape:
  assumes body: "body = (if bad then (Some errDeployComposeFailure, tr @ p @ [Log ErrorLevel])
                         else stage (tr @ p @ [Log InfoLevel]))"
    and p: "p = Log InfoLevel # emitted (tr @ [Log InfoLevel]) (dockerLogin w rs (tr @ [Log InfoLevel]))
                @ u" "kinds u \<subseteq> {LogK}"
    and run: "run = (fst body, snd (dockerLogout w rs (snd body)))"
    and snd: "\<And>t. snd (stage t) = t @ emitted t (stage t)"
  shows "\<exists>b out. emitted tr run = b @ out
           \<and> prefix (map (loginCall w) (filter threeSegments rs)) (calls b)
           \<and> calls out = map (logoutCall w) (filter threeSegments rs)
           \<and> kinds out \<subseteq> {LogK, CmdRunK}"
proof -
  obtain rest where r: "snd body = tr @ p @ rest"
    using prelude_shape [OF body snd] by blast
  then have sb: "snd body = tr @ emitted tr body" by (simp add: emitted_def)
  have eb: "emitted tr body = p @ rest" using r by (simp add: emitted_def)
  have cu: "calls u = []" using p(2) by (intro calls_absent) auto
  have "calls (emitted tr body) = map (loginCall w) (filter threeSegments rs) @ calls rest"
    unfolding eb p(1) using cu by simp
  then have "prefix (map (loginCall w) (filter threeSegments rs)) (calls (emitted tr body))"
    by simp
  moreover have "emitted tr run
      = emitted tr body @ emitted (snd body) (dockerLogout w rs (snd body))"
    by (rule logout_emitted [OF run sb])
  ultimately show ?thesis
    using dockerLogout_kinds_sub [of "snd body" w rs] by (intro exI conjI) auto
qed

subsection \<open>The runs of deploy.go\<close>

lemma DeployCommand_Run_eq:
  "DeployCommand_Run w cmd tr
     = (fst (DeployCommand_body w cmd tr),
        snd (dockerLogout w (Registry cmd) (snd (DeployCommand_body w cmd tr))))"
  by (simp add: DeployCommand_Run_def split_beta)

lemma SwarmDeployCommand_body_eq:
  "SwarmDeployCommand_body w cmd tr
     = (if strings_LastIndex (GitRepository cmd) (CHR ''/'') = - 1
        then (Some errDeployComposeFailure,
              tr @ (Log InfoLevel
                    # emitted (tr @ [Log InfoLevel])
                        (dockerLogin w (Registry cmd) (tr @ [Log InfoLevel]))
                    @ (if User cmd \<noteq> [] \<and> Password cmd \<noteq> [] then [Log InfoLevel] else []))
                 @ [Log ErrorLevel])
        else swarmDeploy w cmd
               (makeWorkingDir (Destination cmd) (ProjectName cmd))
               (filepath_Join [makeWorkingDir (Destination cmd) (ProjectName cmd),
                  repositoryNameOf cmd (strings_LastIndex (GitRepository cmd) (CHR ''/''))])
               (tr @ (Log InfoLevel
                    # emitted (tr @ [Log InfoLevel])
                        (dockerLogin w (Registry cmd) (tr @ [Log InfoLevel]))
                    @ (if User cmd \<noteq> [] \<and> Password cmd \<noteq> [] then [Log InfoLevel] else []))
                 @ [Log InfoLevel]))"
  by (simp add: SwarmDeployCommand_body_def Let_def split_beta dockerLogin_snd)

lemma SwarmDeployCommand_Run_eq:
  "SwarmDeployCommand_Run w cmd tr
     = (fst (SwarmDeployCommand_body w cmd tr),
        snd (dockerLogout w (Registry cmd) (snd (SwarmDeployCommand_body w cmd tr))))"
  by (simp add: SwarmDeployCommand_Run_def split_beta)

lemma swarmDeploy_snd:
  "snd (swarmDeploy w cmd mp cp tr) = tr @ emitted tr (swarmDeploy w cmd mp cp tr)"
  using swarmDeploy_ex [of w cmd mp cp tr] by (auto simp: emitted_def)

lemma swarmDeploy_v2_snd:
  "snd (swarmDeploy_v2 w cmd mp cp tr) = tr @ emitted tr (swarmDeploy_v2 w cmd mp cp tr)"
  using swarmDeploy_v2_ex [of w cmd mp cp tr] by (auto simp: emitted_def)

text \<open>The summary of a swarm run is not disturbed by log lines and commands around it.\<close>

lemma swarm_closure:
  assumes "kinds c \<subseteq> {LogK, CmdRunK}"
  shows "queries (c @ d) = queries d" "queries (d @ c) = queries d"
    "updates (c @ d) = updates d" "updates (d @ c) = updates d"
    "swarmDeploys (c @ d) = swarmDeploys d" "swarmDeploys (d @ c) = swarmDeploys d"
    "queries c = []" "updates c = []" "swarmDeploys c = []"
proof -
  have "CheckRunningServiceK \<notin> kinds c" "UpdateServiceK \<notin> kinds c" "DeploySwarmStackK \<notin> kinds c"
    using assms by auto
  then show "queries (c @ d) = queries d" "queries (d @ c) = queries d"
    "updates (c @ d) = updates d" "updates (d @ c) = updates d"
    "swarmDeploys (c @ d) = swarmDeploys d" "swarmDeploys (d @ c) = swarmDeploys d"
    "queries c = []" "updates c = []" "swarmDeploys c = []"
    by simp_all
qed

lemma SwarmDeployCommand_Run_summary:
  "kinds (emitted tr (SwarmDeployCommand_Run w cmd tr))
     \<subseteq> (if Keep cmd then {} else setupKinds)
        \<union> {LogK, WalkDirK, CmdRunK, DeploySwarmStackK, CheckRunningServiceK, UpdateServiceK}
   \<and> runFacts True (fst (SwarmDeployCommand_Run w cmd tr))
       (queries (emitted tr (SwarmDeployCommand_Run w cmd tr)))
       (updates (emitted tr (SwarmDeployCommand_Run w cmd tr)))
       (swarmDeploys (emitted tr (SwarmDeployCommand_Run w cmd tr)))"
proof -
  let ?mp = "makeWorkingDir (Destination cmd) (ProjectName cmd)"
  let ?cp = "filepath_Join [?mp,
                  repositoryNameOf cmd (strings_LastIndex (GitRepository cmd) (CHR ''/''))]"
  let ?Q = "\<lambda>r d. kinds d \<subseteq> (if Keep cmd then {} else setupKinds)
          \<union> {LogK, WalkDirK, CmdRunK, DeploySwarmStackK, CheckRunningServiceK, UpdateServiceK}
        \<and> runFacts True r (queries d) (updates d) (swarmDeploys d)"
  have "?Q (fst (SwarmDeployCommand_Run w cmd tr)) (emitted tr (SwarmDeployCommand_Run w cmd tr))"
  proof (rule run_lift [where Q = ?Q and stage = "swarmDeploy w cmd ?mp ?cp" and w = w
        and rs = "Registry cmd" and body = "SwarmDeployCommand_body w cmd tr",
        OF SwarmDeployCommand_body_eq [of w cmd tr] loginEvents_kinds
          SwarmDeployCommand_Run_eq [of w cmd tr]])
    show "snd (swarmDeploy w cmd ?mp ?cp t) = t @ emitted t (swarmDeploy w cmd ?mp ?cp t)" for t
      by (rule swarmDeploy_snd)
    show "?Q (fst (swarmDeploy w cmd ?mp ?cp t)) (emitted t (swarmDeploy w cmd ?mp ?cp t))" for t
      using swarmDeploy_ex [of w cmd ?mp ?cp t] by (auto simp: from_snd)
  qed (auto simp: swarm_closure runFacts_def)
  then show ?thesis .
qed

subsection \<open>The runs of the second version\<close>

lemma SwarmDeployCommand_body_v2_eq:
  "SwarmDeployCommand_body_v2 w cmd
       (tr @ Log InfoLevel
           # emitted (tr @ [Log InfoLevel]) (dockerLogin w (Registry cmd) (tr @ [Log InfoLevel])))
     = (if strings_LastIndex (GitRepository cmd) (CHR ''/'') = - 1
        then (Some errDeployComposeFailure,
              tr @ (Log InfoLevel
                    # emitted (tr @ [Log InfoLevel])
                        (dockerLogin w (Registry cmd) (tr @ [Log InfoLevel]))
                    @ (if User cmd \<noteq> [] \<and> Password cmd \<noteq> [] then [Log InfoLevel] else []))
                 @ [Log ErrorLevel])
        else swarmDeploy_v2 w cmd
               (makeWorkingDir (Destination cmd) (ProjectName cmd))
               (filepath_Join [makeWorkingDir (Destination cmd) (ProjectName cmd),
                  repositoryNameOf cmd (strings_LastIndex (GitRepository cmd) (CHR ''/''))])
               (tr @ (Log InfoLevel
                    # emitted (tr @ [Log InfoLevel])
                        (dockerLogin w (Registry cmd) (tr @ [Log InfoLevel]))
                    @ (if User cmd \<noteq> [] \<and> Password cmd \<noteq> [] then [Log InfoLevel] else []))
                 @ [Log InfoLevel]))"
  by (simp add: SwarmDeployCommand_body_v2_def Let_def)

lemma SwarmDeployCommand_Run_v2_eq:
  "SwarmDeployCommand_Run_v2 w cmd tr
     = (fst (SwarmDeployCommand_body_v2 w cmd
               (tr @ Log InfoLevel
                  # emitted (tr @ [Log InfoLevel])
                      (dockerLogin w (Registry cmd) (tr @ [Log InfoLevel])))),
        snd (dockerLogout w (Registry cmd)
               (snd (SwarmDeployCommand_body_v2 w cmd
                  (tr @ Log InfoLevel
                     # emitted (tr @ [Log InfoLevel])
                         (dockerLogin w (Registry cmd) (tr @ [Log InfoLevel])))))))"
  by (simp add: SwarmDeployCommand_Run_v2_def split_beta dockerLogin_snd)

lemma SwarmDeployCommand_Run_v2_summary:
  "kinds (emitted tr (SwarmDeployCommand_Run_v2 w cmd tr))
     \<subseteq> (if Keep cmd then {} else setupKinds)
        \<union> {LogK, CmdRunK, DeploySwarmStackK, CheckRunningServiceK, UpdateServiceK}
   \<and> runFacts (ForceRecreateStack cmd) (fst (SwarmDeployCommand_Run_v2 w cmd tr))
       (queries (emitted tr (SwarmDeployCommand_Run_v2 w cmd tr)))
       (updates (emitted tr (SwarmDeployCommand_Run_v2 w cmd tr)))
       (swarmDeploys (emitted tr (SwarmDeployCommand_Run_v2 w cmd tr)))"
proof -
  let ?mp = "makeWorkingDir (Destination cmd) (ProjectName cmd)"
  let ?cp = "filepath_Join [?mp,
                  repositoryNameOf cmd (strings_LastIndex (GitRepository cmd) (CHR ''/''))]"
  let ?Q = "\<lambda>r d. kinds d \<subseteq> (if Keep cmd then {} else setupKinds)
          \<union> {LogK, CmdRunK, DeploySwarmStackK, CheckRunningServiceK, UpdateServiceK}
        \<and> runFacts (ForceRecreateStack cmd) r (queries d) (updates d) (swarmDeploys d)"
  let ?body = "SwarmDeployCommand_body_v2 w cmd
       (tr @ Log InfoLevel
           # emitted (tr @ [Log InfoLevel]) (dockerLogin w (Registry cmd) (tr @ [Log InfoLevel])))"
  have "?Q (fst (SwarmDeployCommand_Run_v2 w cmd tr))
          (emitted tr (SwarmDeployCommand_Run_v2 w cmd tr))"
  proof (rule run_lift [where Q = ?Q and stage = "swarmDeploy_v2 w cmd ?mp ?cp" and w = w
        and rs = "Registry cmd" and body = ?body,
        OF SwarmDeployCommand_body_v2_eq [of w cmd tr] loginEvents_kinds
          SwarmDeployCommand_Run_v2_eq [of w cmd tr]])
    show "snd (swarmDeploy_v2 w cmd ?mp ?cp t) = t @ emitted t (swarmDeploy_v2 w cmd ?mp ?cp t)"
      for t
      by (rule swarmDeploy_v2_snd)
    show "?Q (fst (swarmDeploy_v2 w cmd ?mp ?cp t)) (emitted t (swarmDeploy_v2 w cmd ?mp ?cp t))"
      for t
      using swarmDeploy_v2_ex [of w cmd ?mp ?cp t] by (auto simp: from_snd)
  qed (auto simp: swarm_closure runFacts_def)
  then show ?thesis .
qed

lemma authConfigs_emits:
  "\<exists>d. snd (authConfigs rs acc tr) = tr @ d \<and> kinds d \<subseteq> {LogK}"
proof (induction rs arbitrary: acc tr)
  case Nil
  show ?case by simp
next
  case (Cons r rs)
  show ?case
  proof (cases "length (strings_Split r (CHR '':'')) \<noteq> 3")
    case True
    obtain d where "snd (authConfigs rs acc (tr @ [Log WarnLevel])) = (tr @ [Log WarnLevel]) @ d"
      "kinds d \<subseteq> {LogK}"
      using Cons.IH by blast
    with True show ?thesis by (intro exI [of _ "Log WarnLevel # d"]) simp
  next
    case False
    then show ?thesis using Cons.IH by (simp add: Let_def)
  qed
qed

lemma authConfigs_snd: "snd (authConfigs rs acc tr) = tr @ emitted tr (authConfigs rs acc tr)"
  using authConfigs_emits [of rs acc tr] by (auto simp: emitted_def)

lemma authConfigs_kinds: "kinds (emitted tr (authConfigs rs acc tr)) \<subseteq> {LogK}"
  using authConfigs_emits [of rs acc tr] by (auto simp: from_snd)

text \<open>The summary of a compose deployment: the kinds of its events, the one error value,
  and the options of every deploy call.\<close>

lemma deployCompose_v2_ex:
  "\<exists>d. snd (deployCompose_v2 w cmd cp tr) = tr @ d
      \<and> kinds d \<subseteq> {LogK, CmdRunK, NewComposeDeployerK, DeployK}
      \<and> (\<forall>e. fst (deployCompose_v2 w cmd cp tr) = Some e \<longrightarrow> e = errDeployComposeFailure)
      \<and> (\<forall>opts \<in> set (deployOpts d).
            opt_ForceRecreate opts = ForceRecreateStack cmd
            \<and> opt_RemoveOrphans opts = Prune cmd
            \<and> opt_ProjectName opts = ProjectName cmd \<and> opt_Env opts = Env cmd)"
proof -
  let ?t = "tr @ [NewComposeDeployer [] None, Log InfoLevel]"
  have k: "kinds (emitted ?t (authConfigs (Registry cmd) [] ?t)) \<subseteq> {LogK}"
    by (rule authConfigs_kinds)
  then have "DeployK \<notin> kinds (emitted ?t (authConfigs (Registry cmd) [] ?t))" by auto
  with k show ?thesis
    by (auto simp: deployCompose_v2_def Let_def split_beta authConfigs_snd)
qed

lemma deployCompose_opts:
  "opts \<in> set (deployOpts (emitted tr (deployCompose w cmd cp tr)))
   \<Longrightarrow> opt_ForceRecreate opts \<and> \<not> opt_RemoveOrphans opts
       \<and> opt_ProjectName opts = ProjectName cmd \<and> opt_Env opts = Env cmd"
  by (auto simp: deployCompose_def Let_def split_beta sopsDecrypt_snd
      split: option.splits if_splits)

lemma deployCompose_ex:
  "\<exists>d. snd (deployCompose w cmd cp tr) = tr @ d
      \<and> kinds d \<subseteq> {LogK, NewComposeDeployerK, WalkDirK, CmdRunK, DeployK}
      \<and> (\<forall>e. fst (deployCompose w cmd cp tr) = Some e \<longrightarrow> e = errDeployComposeFailure)
      \<and> (\<forall>opts \<in> set (deployOpts d).
            opt_ForceRecreate opts = True \<and> opt_RemoveOrphans opts = False
            \<and> opt_ProjectName opts = ProjectName cmd \<and> opt_Env opts = Env cmd)"
  using deployCompose_snd [of w cmd cp tr] deployCompose_kinds_sub [of tr w cmd cp]
    deployCompose_fst [of w cmd cp tr] deployCompose_opts [of _ tr w cmd cp]
  by (intro exI [of _ "emitted tr (deployCompose w cmd cp tr)"]) auto

lemma compose_stage:
  assumes rest: "\<And>t. \<exists>d. snd (rest t) = t @ d \<and> kinds d \<subseteq> K
                   \<and> (\<forall>e. fst (rest t) = Some e \<longrightarrow> e = errDeployComposeFailure)
                   \<and> (\<forall>opts \<in> set (deployOpts d). P opts)"
    and K: "LogK \<in> K"
  shows "snd (fromWorkspace w cmd gopts mp cp rest t)
           = t @ emitted t (fromWorkspace w cmd gopts mp cp rest t)"
    and "kinds (emitted t (fromWorkspace w cmd gopts mp cp rest t))
           \<subseteq> (if Keep cmd then {} else setupKinds) \<union> K
         \<and> (\<forall>e. fst (fromWorkspace w cmd gopts mp cp rest t) = Some e
                \<longrightarrow> e = errDeployComposeFailure)
         \<and> (\<forall>opts \<in> set (deployOpts (emitted t (fromWorkspace w cmd gopts mp cp rest t))).
               P opts)"
proof -
  have s: "snd (rest t) = t @ emitted t (rest t)" for t
    using rest [of t] by (auto simp: emitted_def)
  have q: "kinds (emitted t (rest t)) \<subseteq> (if Keep cmd then {} else setupKinds) \<union> K
         \<and> (\<forall>e. fst (rest t) = Some e \<longrightarrow> e = errDeployComposeFailure)
         \<and> (\<forall>opts \<in> set (deployOpts (emitted t (rest t))). P opts)" for t
    using rest [of t] by (auto simp: from_snd)
  show "snd (fromWorkspace w cmd gopts mp cp rest t)
           = t @ emitted t (fromWorkspace w cmd gopts mp cp rest t)"
    by (rule fromWorkspace_snd [OF s])
  show "kinds (emitted t (fromWorkspace w cmd gopts mp cp rest t))
           \<subseteq> (if Keep cmd then {} else setupKinds) \<union> K
         \<and> (\<forall>e. fst (fromWorkspace w cmd gopts mp cp rest t) = Some e
                \<longrightarrow> e = errDeployComposeFailure)
         \<and> (\<forall>opts \<in> set (deployOpts (emitted t (fromWorkspace w cmd gopts mp cp rest t))).
               P opts)"
  proof (rule fromWorkspace_lift [where Q = "\<lambda>r d.
        kinds d \<subseteq> (if Keep cmd then {} else setupKinds) \<union> K
        \<and> (\<forall>e. r = Some e \<longrightarrow> e = errDeployComposeFailure)
        \<and> (\<forall>opts \<in> set (deployOpts d). P opts)", OF s q])
    fix c :: "event list" and r d
    assume nk: "\<not> Keep cmd" and k: "kinds c \<subseteq> insert LogK setupKinds"
    then have "DeployK \<notin> kinds c" by (auto simp: setupKinds_def)
    then have z: "deployOpts c = []" by simp
    show "kinds c \<subseteq> (if Keep cmd then {} else setupKinds) \<union> K
        \<and> (\<forall>e. Some errDeployComposeFailure = Some e \<longrightarrow> e = errDeployComposeFailure)
        \<and> (\<forall>opts \<in> set (deployOpts c). P opts)"
      using nk k K z by auto
    assume "kinds d \<subseteq> (if Keep cmd then {} else setupKinds) \<union> K
        \<and> (\<forall>e. r = Some e \<longrightarrow> e = errDeployComposeFailure)
        \<and> (\<forall>opts \<in> set (deployOpts d). P opts)"
    then show "kinds (c @ d) \<subseteq> (if Keep cmd then {} else setupKinds) \<union> K
        \<and> (\<forall>e. r = Some e \<longrightarrow> e = errDeployComposeFailure)
        \<and> (\<forall>opts \<in> set (deployOpts (c @ d)). P opts)"
      using nk k K z by auto
  qed
qed

lemma compose_closure:
  assumes "kinds c \<subseteq> {LogK, CmdRunK}"
  shows "deployOpts (c @ d) = deployOpts d" "deployOpts (d @ c) = deployOpts d"
    "deployOpts c = []"
proof -
  have "DeployK \<notin> kinds c" using assms by auto
  then show "deployOpts (c @ d) = deployOpts d" "deployOpts (d @ c) = deployOpts d"
    "deployOpts c = []"
    by simp_all
qed

lemma DeployCommand_Run_summary:
  "kinds (emitted tr (DeployCommand_Run w cmd tr))
     \<subseteq> (if Keep cmd then {} else setupKinds)
        \<union> {LogK, NewComposeDeployerK, WalkDirK, CmdRunK, DeployK}
   \<and> (\<forall>e. fst (DeployCommand_Run w cmd tr) = Some e \<longrightarrow> e = errDeployComposeFailure)
   \<and> (\<forall>opts \<in> set (deployOpts (emitted tr (DeployCommand_Run w cmd tr))).
         opt_ForceRecreate opts = True \<and> opt_RemoveOrphans opts = False
         \<and> opt_ProjectName opts = ProjectName cmd \<and> opt_Env opts = Env cmd)"
proof -
  let ?mp = "makeWorkingDir (Destination cmd) (ProjectName cmd)"
  let ?cp = "filepath_Join [?mp,
                  repositoryNameOf cmd (strings_LastIndex (GitRepository cmd) (CHR ''/''))]"
  let ?P = "\<lambda>opts. opt_ForceRecreate opts = True \<and> opt_RemoveOrphans opts = False
         \<and> opt_ProjectName opts = ProjectName cmd \<and> opt_Env opts = Env cmd"
  let ?K = "{LogK, NewComposeDeployerK, WalkDirK, CmdRunK, DeployK}"
  let ?Q = "\<lambda>r d. kinds d \<subseteq> (if Keep cmd then {} else setupKinds) \<union> ?K
        \<and> (\<forall>e. r = Some e \<longrightarrow> e = errDeployComposeFailure)
        \<and> (\<forall>opts \<in> set (deployOpts d). ?P opts)"
  let ?stage = "fromWorkspace w cmd (gitCloneOptions cmd 1 InvalidTagMode) ?mp ?cp
                  (deployCompose w cmd ?cp)"
  have "?Q (fst (DeployCommand_Run w cmd tr)) (emitted tr (DeployCommand_Run w cmd tr))"
  proof (rule run_lift [where Q = ?Q and stage = ?stage and w = w
        and rs = "Registry cmd" and body = "DeployCommand_body w cmd tr",
        OF DeployCommand_body_eq [of w cmd tr] loginEvents_kinds
          DeployCommand_Run_eq [of w cmd tr]])
    show "snd (?stage t) = t @ emitted t (?stage t)" for t
      by (rule compose_stage(1) [where K = ?K and P = ?P, OF deployCompose_ex]) simp
    show "?Q (fst (?stage t)) (emitted t (?stage t))" for t
      by (rule compose_stage(2) [where K = ?K and P = ?P, OF deployCompose_ex]) simp
  qed (auto simp: compose_closure)
  then show ?thesis .
qed

lemma DeployCommand_Run_v2_eq:
  "DeployCommand_Run_v2 w cmd tr
     = (if strings_LastIndex (GitRepository cmd) (CHR ''/'') = - 1
        then (Some errDeployComposeFailure,
              tr @ (Log InfoLevel
                    # (if User cmd \<noteq> [] \<and> Password cmd \<noteq> [] then [Log InfoLevel] else []))
                 @ [Log ErrorLevel])
        else fromWorkspace w cmd (gitCloneOptions cmd 1 NoTags)
               (makeWorkingDir (Destination cmd) (ProjectName cmd))
               (filepath_Join [makeWorkingDir (Destination cmd) (ProjectName cmd),
                  repositoryNameOf cmd (strings_LastIndex (GitRepository cmd) (CHR ''/''))])
               (deployCompose_v2 w cmd
                  (filepath_Join [makeWorkingDir (Destination cmd) (ProjectName cmd),
                     repositoryNameOf cmd (strings_LastIndex (GitRepository cmd) (CHR ''/''))]))
               (tr @ (Log InfoLevel
                    # (if User cmd \<noteq> [] \<and> Password cmd \<noteq> [] then [Log InfoLevel] else []))
                 @ [Log InfoLevel]))"
  by (simp add: DeployCommand_Run_v2_def Let_def)

lemma DeployCommand_Run_v2_summary:
  "kinds (emitted tr (DeployCommand_Run_v2 w cmd tr))
     \<subseteq> (if Keep cmd then {} else setupKinds)
        \<union> {LogK, CmdRunK, NewComposeDeployerK, DeployK}
   \<and> (\<forall>e. fst (DeployCommand_Run_v2 w cmd tr) = Some e \<longrightarrow> e = errDeployComposeFailure)
   \<and> (\<forall>opts \<in> set (deployOpts (emitted tr (DeployCommand_Run_v2 w cmd tr))).
         opt_ForceRecreate opts = ForceRecreateStack cmd
         \<and> opt_RemoveOrphans opts = Prune cmd
         \<and> opt_ProjectName opts = ProjectName cmd \<and> opt_Env opts = Env cmd)"
proof -
  let ?mp = "makeWorkingDir (Destination cmd) (ProjectName cmd)"
  let ?cp = "filepath_Join [?mp,
                  repositoryNameOf cmd (strings_LastIndex (GitRepository cmd) (CHR ''/''))]"
  let ?P = "\<lambda>opts. opt_ForceRecreate opts = ForceRecreateStack cmd
         \<and> opt_RemoveOrphans opts = Prune cmd
         \<and> opt_ProjectName opts = ProjectName cmd \<and> opt_Env opts = Env cmd"
  let ?K = "{LogK, CmdRunK, NewComposeDeployerK, DeployK}"
  let ?Q = "\<lambda>r d. kinds d \<subseteq> (if Keep cmd then {} else setupKinds) \<union> ?K
        \<and> (\<forall>e. r = Some e \<longrightarrow> e = errDeployComposeFailure)
        \<and> (\<forall>opts \<in> set (deployOpts d). ?P opts)"
  let ?stage = "fromWorkspace w cmd (gitCloneOptions cmd 1 NoTags) ?mp ?cp
                  (deployCompose_v2 w cmd ?cp)"
  have "snd (DeployCommand_Run_v2 w cmd tr) = tr @ emitted tr (DeployCommand_Run_v2 w cmd tr)
      \<and> ?Q (fst (DeployCommand_Run_v2 w cmd tr)) (emitted tr (DeployCommand_Run_v2 w cmd tr))"
  proof (rule prelude_lift [where Q = ?Q and stage = ?stage,
        OF DeployCommand_Run_v2_eq [of w cmd tr]])
    show "snd (?stage t) = t @ emitted t (?stage t)" for t
      by (rule compose_stage(1) [where K = ?K and P = ?P, OF deployCompose_v2_ex]) simp
    show "?Q (fst (?stage t)) (emitted t (?stage t))" for t
      by (rule compose_stage(2) [where K = ?K and P = ?P, OF deployCompose_v2_ex]) simp
  qed (auto simp: compose_closure)
  then show ?thesis by blast
qed

subsection \<open>The undeploy commands\<close>

lemma UndeployCommand_Run_errors:
  "fst (UndeployCommand_Run w cmd tr) = Some e \<Longrightarrow> e = errDeployComposeFailure"
  by (auto simp: UndeployCommand_Run_def Let_def split: if_splits)

lemma SwarmUndeployCommand_Run_errors:
  "fst (SwarmUndeployCommand_Run w cmd tr) = Some e
   \<Longrightarrow> \<exists>c stderr. e = errors_New stderr
         \<and> CmdRun c [''stack'', ''rm'', ProjectName cmd] None [] (Some stderr)
             \<in> set (emitted tr (SwarmUndeployCommand_Run w cmd tr))"
  by (auto simp: SwarmUndeployCommand_Run_def Let_def runCommandAndCaptureStdErr_eq emitted_def
      split: if_splits option.splits)

section \<open>The failure that a run returns\<close>

lemma firstFailure_append [simp]:
  "firstFailure f (c @ d)
     = (case firstFailure f c of None \<Rightarrow> firstFailure f d | Some err \<Rightarrow> Some err)"
  by (induction c) (auto split: option.splits)

lemma deployFailure_result [simp]:
  "deployFailure (OsRemoveAll p r) = (if r = None then None else Some errDeployComposeFailure)"
  "deployFailure (OsMkdirAll p m r) = (if r = None then None else Some errDeployComposeFailure)"
  "deployFailure (PlainCloneContext p b opts r)
     = (if r = None then None else Some errDeployComposeFailure)"
  "deployFailure (NewComposeDeployer a r)
     = (if r = None then None else Some errDeployComposeFailure)"
  "deployFailure (Deploy fs dopts r) = (if r = None then None else Some errDeployComposeFailure)"
  "deployFailure (DeploySwarmStack c cp q) = q"
  by (cases r; simp)+ (cases q; simp)

lemma firstFailure_quiet:
  "kinds d \<subseteq> {LogK, OsStatK, WalkDirK, UpdateServiceK} \<Longrightarrow> firstFailure deployFailure d = None"
proof (induction d)
  case Nil
  then show ?case by simp
next
  case (Cons e d)
  then show ?case by (cases e) auto
qed

text \<open>Commands that have no \<open>--output\<close> file, such as the login and the logout, end nothing.\<close>

lemma firstFailure_commands:
  "kinds d \<subseteq> {LogK, CmdRunK} \<Longrightarrow> \<forall>(c, a, dir) \<in> set (calls d). take 1 a \<noteq> [''--output'']
   \<Longrightarrow> firstFailure deployFailure d = None"
proof (induction d)
  case Nil
  then show ?case by simp
next
  case (Cons e d)
  show ?case
  proof (cases e)
    case (CmdRun c a env dir r)
    then show ?thesis using Cons by (cases r) auto
  qed (use Cons in auto)
qed

lemma dockerLogin_quiet [simp]:
  "firstFailure deployFailure (emitted tr (dockerLogin w rs tr)) = None"
  by (rule firstFailure_commands [OF dockerLogin_kinds_sub])
     (auto simp: loginCall_def loginArgs_def)

lemma dockerLogout_quiet [simp]:
  "firstFailure deployFailure (emitted tr (dockerLogout w rs tr)) = None"
  by (rule firstFailure_commands [OF dockerLogout_kinds_sub])
     (auto simp: logoutCall_def logoutArgs_def)

lemma accountedI:
  assumes "\<And>t. snd (stage t) = t @ emitted t (stage t)"
    and "\<And>t. fst (stage t) = firstFailure deployFailure (emitted t (stage t))"
  shows "accounted stage"
  unfolding accounted_def
proof
  fix t
  have "stage t = (firstFailure deployFailure (emitted t (stage t)), t @ emitted t (stage t))"
    using assms [of t] by (metis prod.collapse)
  then show "\<exists>d. stage t = (firstFailure deployFailure d, t @ d)" by blast
qed

lemma accountedD:
  assumes "accounted stage"
  shows "snd (stage t) = t @ emitted t (stage t)"
    and "fst (stage t) = firstFailure deployFailure (emitted t (stage t))"
proof -
  obtain d where "stage t = (firstFailure deployFailure d, t @ d)"
    using assms unfolding accounted_def by blast
  then show "snd (stage t) = t @ emitted t (stage t)"
    and "fst (stage t) = firstFailure deployFailure (emitted t (stage t))"
    by simp_all
qed

subsection \<open>The steps\<close>

lemma stackCreate_failure:
  "fst (stackCreate w opts mp cp tr)
     = firstFailure deployFailure (emitted tr (stackCreate w opts mp cp tr))"
  by (auto simp: stackCreate_def Let_def emitted_def)

lemma decryptLoop_failure:
  "\<exists>d. decryptLoop w c env ps tr = (fst (decryptLoop w c env ps tr), tr @ d)
       \<and> firstFailure deployFailure d
           = (if fst (decryptLoop w c env ps tr) = None then None
              else Some errDeployComposeFailure)"
proof (induction ps arbitrary: tr)
  case Nil
  show ?case by (intro exI [of _ "[]"]) simp
next
  case (Cons p ps)
  define env' where "env' = map_option ((@) (osEnviron w)) env"
  define r where "r = cmdRun w tr c (decryptArgs p) env' (filepath_Dir p)"
  define ev where "ev = CmdRun c (decryptArgs p) env' (filepath_Dir p) r"
  have run: "runCommandAndCaptureStdErr w c (decryptArgs p) env (filepath_Dir p) tr
      = (map_option errors_New r, tr @ [ev])"
    by (simp add: runCommandAndCaptureStdErr_eq ev_def r_def env'_def)
  show ?case
  proof (cases r)
    case None
    obtain d where d: "decryptLoop w c env ps (tr @ [ev])
        = (fst (decryptLoop w c env ps (tr @ [ev])), (tr @ [ev]) @ d)"
      "firstFailure deployFailure d
           = (if fst (decryptLoop w c env ps (tr @ [ev])) = None then None
              else Some errDeployComposeFailure)"
      using Cons.IH by blast
    have "decryptLoop w c env (p # ps) tr = decryptLoop w c env ps (tr @ [ev])"
      using run None by simp
    then show ?thesis
      using d None by (intro exI [of _ "ev # d"]) (auto simp: ev_def)
  next
    case (Some stderr)
    have "decryptLoop w c env (p # ps) tr = (Some (errors_New stderr), tr @ [ev, Log WarnLevel])"
      using run Some by simp
    then show ?thesis
      using Some by (intro exI [of _ "[ev, Log WarnLevel]"]) (auto simp: ev_def decryptArgs_def Let_def)
  qed
qed

lemma sopsDecrypt_failure:
  "firstFailure deployFailure (emitted tr (sopsDecrypt w fps env tr))
     = (if fst (sopsDecrypt w fps env tr) = None then None else Some errDeployComposeFailure)"
proof -
  obtain d1 where d1: "walkRoots w (findRootPaths fps) [] tr = ([] @ sopsPaths (walked d1), tr @ d1)"
    "kinds d1 \<subseteq> {LogK, WalkDirK}"
    using walkRoots_emits by blast
  let ?r = "decryptLoop w (getSopsBinaryPath w) env (sopsPaths (walked d1)) (tr @ d1)"
  obtain d2 where d2: "?r = (fst ?r, (tr @ d1) @ d2)"
    "firstFailure deployFailure d2
       = (if fst ?r = None then None else Some errDeployComposeFailure)"
    using decryptLoop_failure by blast
  have q: "firstFailure deployFailure d1 = None"
    using d1(2) by (intro firstFailure_quiet) auto
  have s: "sopsDecrypt w fps env tr = ?r" using d1(1) by (simp add: sopsDecrypt_def)
  have "sopsDecrypt w fps env tr = (fst ?r, tr @ (d1 @ d2))"
    using s d2(1) by (metis append.assoc)
  then have "emitted tr (sopsDecrypt w fps env tr) = d1 @ d2" by simp
  then show ?thesis using q d2(2) s by simp
qed

lemma deployCompose_accounted: "accounted (deployCompose w cmd cp)"
proof (rule accountedI)
  show "snd (deployCompose w cmd cp t) = t @ emitted t (deployCompose w cmd cp t)" for t
    by (rule deployCompose_snd)
  show "fst (deployCompose w cmd cp t)
      = firstFailure deployFailure (emitted t (deployCompose w cmd cp t))" for t
    using sopsDecrypt_failure
      [of "t @ [NewComposeDeployer [BIN_PATH w, PORTAINER_DOCKER_CONFIG_PATH w] None]" w
        "composeFilePathsOf cmd cp" "Env cmd"]
    by (auto simp: deployCompose_def Let_def split_beta sopsDecrypt_snd
        split: option.splits if_splits)
qed

lemma authConfigs_quiet:
  "firstFailure deployFailure (emitted t (authConfigs rs acc t)) = None"
  using authConfigs_kinds [of t rs acc] by (intro firstFailure_quiet) auto

lemma deployCompose_v2_accounted: "accounted (deployCompose_v2 w cmd cp)"
proof (rule accountedI)
  fix t
  let ?t2 = "t @ [NewComposeDeployer [] None, Log InfoLevel]"
  have s: "snd (authConfigs (Registry cmd) [] ?t2)
      = ?t2 @ emitted ?t2 (authConfigs (Registry cmd) [] ?t2)"
    by (rule authConfigs_snd)
  show "snd (deployCompose_v2 w cmd cp t) = t @ emitted t (deployCompose_v2 w cmd cp t)"
    using s by (auto simp: deployCompose_v2_def Let_def split_beta)
  show "fst (deployCompose_v2 w cmd cp t)
      = firstFailure deployFailure (emitted t (deployCompose_v2 w cmd cp t))"
    using s authConfigs_quiet [of ?t2 "Registry cmd" "[]"]
    by (auto simp: deployCompose_v2_def Let_def split_beta)
qed

lemma fromWorkspace_accounted:
  assumes "accounted rest"
  shows "accounted (fromWorkspace w cmd opts mp cp rest)"
proof (rule accountedI)
  fix t
  let ?c = "emitted t (stackCreate w opts mp cp t)"
  have r: "snd (rest u) = u @ emitted u (rest u)"
    "fst (rest u) = firstFailure deployFailure (emitted u (rest u))" for u
    using accountedD [OF assms] by blast+
  have e: "emitted t (rest (t @ ?c)) = ?c @ emitted (t @ ?c) (rest (t @ ?c))"
    using r(1) [of "t @ ?c"] by (intro from_snd) simp
  show "snd (fromWorkspace w cmd opts mp cp rest t)
      = t @ emitted t (fromWorkspace w cmd opts mp cp rest t)"
    by (rule fromWorkspace_snd [OF r(1)])
  show "fst (fromWorkspace w cmd opts mp cp rest t)
      = firstFailure deployFailure (emitted t (fromWorkspace w cmd opts mp cp rest t))"
    using r(2) [of t] r(2) [of "t @ ?c"] e stackCreate_failure [of w opts mp cp t]
      stackCreate_fst [of w opts mp cp t]
    by (auto simp: fromWorkspace_eq)
qed

lemma forceUpdateServices_accounted: "accounted (forceUpdateServices w cmd fu rs flag)"
proof (rule accountedI)
  fix t
  show "snd (forceUpdateServices w cmd fu rs flag t)
      = t @ emitted t (forceUpdateServices w cmd fu rs flag t)"
    by (rule forceUpdateServices_snd)
  define q where "q = checkRunningService w t (ProjectName cmd)"
  show "fst (forceUpdateServices w cmd fu rs flag t)
      = firstFailure deployFailure (emitted t (forceUpdateServices w cmd fu rs flag t))"
  proof (cases "fu")
    case False
    then show ?thesis by (simp add: forceUpdateServices_def)
  next
    case True
    show ?thesis
    proof (cases q)
      case (Inl err)
      then show ?thesis using True by (simp add: forceUpdateServices_def q_def [symmetric])
    next
      case (Inr post)
      obtain d where d: "updateLoop w rs flag post (t @ [CheckRunningService (ProjectName cmd) q])
          = (t @ [CheckRunningService (ProjectName cmd) q]) @ d" "kinds d \<subseteq> {UpdateServiceK}"
        using updateLoop_emits by blast
      have "firstFailure deployFailure d = None"
        using d(2) by (intro firstFailure_quiet) auto
      then show ?thesis
        using True Inr d(1) by (simp add: forceUpdateServices_def q_def [symmetric])
    qed
  qed
qed

lemma swarmStack_accounted: "accounted (swarmStack w cmd cp fu rs flag)"
proof (rule accountedI)
  fix t
  show "snd (swarmStack w cmd cp fu rs flag t) = t @ emitted t (swarmStack w cmd cp fu rs flag t)"
    by (rule swarmStack_snd)
  let ?t1 = "t @ [DeploySwarmStack cmd cp None]"
  have f: "snd (forceUpdateServices w cmd fu rs flag ?t1)
        = ?t1 @ emitted ?t1 (forceUpdateServices w cmd fu rs flag ?t1)"
    "fst (forceUpdateServices w cmd fu rs flag ?t1)
        = firstFailure deployFailure (emitted ?t1 (forceUpdateServices w cmd fu rs flag ?t1))"
    using accountedD [OF forceUpdateServices_accounted] by blast+
  have e: "emitted t (forceUpdateServices w cmd fu rs flag ?t1)
      = DeploySwarmStack cmd cp None # emitted ?t1 (forceUpdateServices w cmd fu rs flag ?t1)"
    using f(1) by (intro from_snd) simp
  show "fst (swarmStack w cmd cp fu rs flag t)
      = firstFailure deployFailure (emitted t (swarmStack w cmd cp fu rs flag t))"
  proof (cases "deploySwarmStack w t cmd cp")
    case None
    then show ?thesis using f(2) e by (simp add: swarmStack_def del: forceUpdateServices_fst)
  next
    case (Some err)
    then show ?thesis by (simp add: swarmStack_def Let_def)
  qed
qed

lemma swarmSecrets_accounted: "accounted (swarmSecrets w cmd cp fu rs)"
proof (rule accountedI)
  fix t
  show "snd (swarmSecrets w cmd cp fu rs t) = t @ emitted t (swarmSecrets w cmd cp fu rs t)"
    by (rule swarmSecrets_snd)
  let ?s = "emitted t (sopsDecrypt w (composeFilePathsOf cmd cp) (Env cmd) t)"
  have f: "snd (swarmStack w cmd cp fu rs None (t @ ?s))
        = (t @ ?s) @ emitted (t @ ?s) (swarmStack w cmd cp fu rs None (t @ ?s))"
    "fst (swarmStack w cmd cp fu rs None (t @ ?s))
        = firstFailure deployFailure (emitted (t @ ?s) (swarmStack w cmd cp fu rs None (t @ ?s)))"
    using accountedD [OF swarmStack_accounted] by blast+
  have e: "emitted t (swarmStack w cmd cp fu rs None (t @ ?s))
      = ?s @ emitted (t @ ?s) (swarmStack w cmd cp fu rs None (t @ ?s))"
    using f(1) by (intro from_snd) simp
  show "fst (swarmSecrets w cmd cp fu rs t)
      = firstFailure deployFailure (emitted t (swarmSecrets w cmd cp fu rs t))"
    using f(2) e sopsDecrypt_failure [of t w "composeFilePathsOf cmd cp" "Env cmd"]
    by (simp add: swarmSecrets_eq)
qed

text \<open>A step that starts with a query for the running services and goes on, when the query
  has an answer, with some log lines and a step that is accounted for.\<close>

lemma query_accounted:
  assumes stage: "\<And>t. stage t
      = (case checkRunningService w t p of
           Inl err \<Rightarrow> (Some err, t @ [CheckRunningService p (Inl err)])
         | Inr ids \<Rightarrow> rest ids (t @ CheckRunningService p (Inr ids) # logs ids))"
    and logs: "\<And>ids. kinds (logs ids) \<subseteq> {LogK}"
    and rest: "\<And>ids. accounted (rest ids)"
  shows "accounted stage"
proof (rule accountedI)
  fix t
  show "snd (stage t) = t @ emitted t (stage t)"
    and "fst (stage t) = firstFailure deployFailure (emitted t (stage t))"
  proof (atomize (full), cases "checkRunningService w t p")
    case (Inl err)
    then show "snd (stage t) = t @ emitted t (stage t)
        \<and> fst (stage t) = firstFailure deployFailure (emitted t (stage t))"
      by (simp add: stage)
  next
    case (Inr ids)
    let ?c = "CheckRunningService p (Inr ids) # logs ids"
    have l: "firstFailure deployFailure (logs ids) = None"
      using logs [of ids] by (intro firstFailure_quiet) auto
    have r: "snd (rest ids (t @ ?c)) = (t @ ?c) @ emitted (t @ ?c) (rest ids (t @ ?c))"
      "fst (rest ids (t @ ?c))
         = firstFailure deployFailure (emitted (t @ ?c) (rest ids (t @ ?c)))"
      using accountedD [OF rest] by blast+
    have e: "emitted t (rest ids (t @ ?c)) = ?c @ emitted (t @ ?c) (rest ids (t @ ?c))"
      using r(1) by (intro from_snd) simp
    have s: "stage t = rest ids (t @ ?c)" using Inr by (simp add: stage)
    show "snd (stage t) = t @ emitted t (stage t)
        \<and> fst (stage t) = firstFailure deployFailure (emitted t (stage t))"
      unfolding s using r e l by simp
  qed
qed

lemma swarmDeploy_accounted: "accounted (swarmDeploy w cmd mp cp)"
proof (rule query_accounted [where w = w and p = "ProjectName cmd"
      and logs = "\<lambda>ids. if set ids \<noteq> {} then [Log InfoLevel] else []"
      and rest = "\<lambda>ids. fromWorkspace w cmd (gitCloneOptions cmd 100 InvalidTagMode) mp cp
                     (swarmSecrets w cmd cp (set ids \<noteq> {}) (set ids))"])
  show "swarmDeploy w cmd mp cp t
      = (case checkRunningService w t (ProjectName cmd) of
           Inl err \<Rightarrow> (Some err, t @ [CheckRunningService (ProjectName cmd) (Inl err)])
         | Inr ids \<Rightarrow>
             fromWorkspace w cmd (gitCloneOptions cmd 100 InvalidTagMode) mp cp
               (swarmSecrets w cmd cp (set ids \<noteq> {}) (set ids))
               (t @ CheckRunningService (ProjectName cmd) (Inr ids)
                    # (if set ids \<noteq> {} then [Log InfoLevel] else [])))" for t
    by (simp add: swarmDeploy_def Let_def split: sum.splits)
  show "accounted (fromWorkspace w cmd (gitCloneOptions cmd 100 InvalidTagMode) mp cp
          (swarmSecrets w cmd cp (set ids \<noteq> {}) (set ids)))" for ids
    by (rule fromWorkspace_accounted [OF swarmSecrets_accounted])
qed simp

lemma swarmDeploy_v2_accounted: "accounted (swarmDeploy_v2 w cmd mp cp)"
proof (rule query_accounted [where w = w and p = "ProjectName cmd"
      and logs = "\<lambda>ids. if ForceRecreateStack cmd \<and> set ids \<noteq> {} then [Log InfoLevel] else []"
      and rest = "\<lambda>ids. fromWorkspace w cmd (gitCloneOptions cmd 1 NoTags) mp cp
                     (swarmStack w cmd cp (ForceRecreateStack cmd \<and> set ids \<noteq> {}) (set ids)
                        (Some (ForceRecreateStack cmd \<and> set ids \<noteq> {})))"])
  show "swarmDeploy_v2 w cmd mp cp t
      = (case checkRunningService w t (ProjectName cmd) of
           Inl err \<Rightarrow> (Some err, t @ [CheckRunningService (ProjectName cmd) (Inl err)])
         | Inr ids \<Rightarrow>
             fromWorkspace w cmd (gitCloneOptions cmd 1 NoTags) mp cp
               (swarmStack w cmd cp (ForceRecreateStack cmd \<and> set ids \<noteq> {}) (set ids)
                  (Some (ForceRecreateStack cmd \<and> set ids \<noteq> {})))
               (t @ CheckRunningService (ProjectName cmd) (Inr ids)
                    # (if ForceRecreateStack cmd \<and> set ids \<noteq> {} then [Log InfoLevel] else [])))"
    for t
    by (simp add: swarmDeploy_v2_def Let_def split: sum.splits)
  show "accounted (fromWorkspace w cmd (gitCloneOptions cmd 1 NoTags) mp cp
          (swarmStack w cmd cp (ForceRecreateStack cmd \<and> set ids \<noteq> {}) (set ids)
             (Some (ForceRecreateStack cmd \<and> set ids \<noteq> {}))))" for ids
    by (rule fromWorkspace_accounted [OF swarmStack_accounted])
qed simp

subsection \<open>The runs\<close>

text \<open>The check of the repository URL is no event: a run that fails it returns the generic
  error after log lines and login commands only.\<close>

lemma prelude_verdict:
  assumes body: "body = (if bad then (Some errDeployComposeFailure, tr @ p @ [Log ErrorLevel])
                         else stage (tr @ p @ [Log InfoLevel]))"
    and p: "firstFailure deployFailure p = None"
    and stage: "accounted stage"
  shows "snd body = tr @ emitted tr body
       \<and> fst body = (if bad then Some errDeployComposeFailure
                     else firstFailure deployFailure (emitted tr body))"
proof (cases bad)
  case True
  then show ?thesis using body by simp
next
  case False
  let ?t = "tr @ p @ [Log InfoLevel]"
  have r: "snd (stage ?t) = ?t @ emitted ?t (stage ?t)"
    "fst (stage ?t) = firstFailure deployFailure (emitted ?t (stage ?t))"
    using accountedD [OF stage] by blast+
  have "snd (stage ?t) = tr @ ((p @ [Log InfoLevel]) @ emitted ?t (stage ?t))"
    using r(1) by simp
  then have e: "emitted tr (stage ?t) = (p @ [Log InfoLevel]) @ emitted ?t (stage ?t)"
    by (rule from_snd)
  show ?thesis using False body r e p by simp
qed

lemma logout_verdict:
  assumes run: "run = (fst body, snd (dockerLogout w rs (snd body)))"
    and body: "snd body = tr @ emitted tr body \<and> fst body = (if bad then Some errDeployComposeFailure
                     else firstFailure deployFailure (emitted tr body))"
  shows "fst run = (if bad then Some errDeployComposeFailure
                    else firstFailure deployFailure (emitted tr run))"
proof -
  have e: "emitted tr run = emitted tr body @ emitted (snd body) (dockerLogout w rs (snd body))"
    using body by (intro logout_emitted [OF run]) simp
  have f: "fst run = fst body" using run by simp
  show ?thesis unfolding e f using body by (simp split: option.splits)
qed

lemma loginEvents_quiet:
  "firstFailure deployFailure
     (Log InfoLevel # emitted t (dockerLogin w rs t) @ (if b then [Log InfoLevel] else [])) = None"
  by simp

lemma DeployCommand_Run_verdict:
  "fst (DeployCommand_Run w cmd tr)
     = (if strings_LastIndex (GitRepository cmd) (CHR ''/'') = - 1
        then Some errDeployComposeFailure
        else firstFailure deployFailure (emitted tr (DeployCommand_Run w cmd tr)))"
  by (rule logout_verdict [OF DeployCommand_Run_eq [of w cmd tr]
        prelude_verdict [OF DeployCommand_body_eq [of w cmd tr] loginEvents_quiet
          fromWorkspace_accounted [OF deployCompose_accounted]]])

lemma SwarmDeployCommand_Run_verdict:
  "fst (SwarmDeployCommand_Run w cmd tr)
     = (if strings_LastIndex (GitRepository cmd) (CHR ''/'') = - 1
        then Some errDeployComposeFailure
        else firstFailure deployFailure (emitted tr (SwarmDeployCommand_Run w cmd tr)))"
  by (rule logout_verdict [OF SwarmDeployCommand_Run_eq [of w cmd tr]
        prelude_verdict [OF SwarmDeployCommand_body_eq [of w cmd tr] loginEvents_quiet
          swarmDeploy_accounted]])

lemma SwarmDeployCommand_Run_v2_verdict:
  "fst (SwarmDeployCommand_Run_v2 w cmd tr)
     = (if strings_LastIndex (GitRepository cmd) (CHR ''/'') = - 1
        then Some errDeployComposeFailure
        else firstFailure deployFailure (emitted tr (SwarmDeployCommand_Run_v2 w cmd tr)))"
  by (rule logout_verdict [OF SwarmDeployCommand_Run_v2_eq [of w cmd tr]
        prelude_verdict [OF SwarmDeployCommand_body_v2_eq [of w cmd tr] loginEvents_quiet
          swarmDeploy_v2_accounted]])

lemma DeployCommand_Run_v2_verdict:
  "fst (DeployCommand_Run_v2 w cmd tr)
     = (if strings_LastIndex (GitRepository cmd) (CHR ''/'') = - 1
        then Some errDeployComposeFailure
        else firstFailure deployFailure (emitted tr (DeployCommand_Run_v2 w cmd tr)))"
proof -
  have "firstFailure deployFailure
      (Log InfoLevel # (if User cmd \<noteq> [] \<and> Password cmd \<noteq> [] then [Log InfoLevel] else [])) = None"
    by simp
  from prelude_verdict [OF DeployCommand_Run_v2_eq [of w cmd tr] this
      fromWorkspace_accounted [OF deployCompose_v2_accounted]]
  show ?thesis by blast
qed

lemma UndeployCommand_Run_verdict:
  "fst (UndeployCommand_Run w cmd tr)
     = (if strings_LastIndex (GitRepository cmd) (CHR ''/'') = - 1
        then Some errDeployComposeFailure
        else firstFailure undeployFailure (emitted tr (UndeployCommand_Run w cmd tr)))"
  by (auto simp: UndeployCommand_Run_def Let_def emitted_def)

lemma SwarmUndeployCommand_Run_verdict:
  "fst (SwarmUndeployCommand_Run w cmd tr)
     = firstFailure undeployFailure (emitted tr (SwarmUndeployCommand_Run w cmd tr))"
  by (auto simp: SwarmUndeployCommand_Run_def Let_def emitted_def runCommandAndCaptureStdErr_def
      split: option.splits)

section \<open>Runs in the concrete worlds\<close>

lemma billing_fields [simp]:
  "User billing = []" "Password billing = []" "Keep billing = False"
  "Env billing = None" "Registry billing = [''user:secret:registry.example.com'', ''broken'']"
  "GitRepository billing = ''https://example.com/org/billing-stack.git''"
  "ProjectName billing = ''billing''" "Destination billing = ''/data''"
  "ComposeRelativeFilePaths billing = [''docker-compose.yml'']"
  "ForceRecreateStack billing = False" "Prune billing = False"
  "Reference billing = ''refs/heads/main''" "SkipTLSVerify billing = False"
  by (simp_all add: billing_def)

lemma quietWorld_fields [simp]:
  "BIN_PATH quietWorld = ''/app''" "PORTAINER_DOCKER_CONFIG_PATH quietWorld = ''/config''"
  "GOOS quietWorld = ''linux''" "osEnviron quietWorld = []"
  "cmdRun quietWorld = (\<lambda>tr c a e d. None)"
  "osStat quietWorld = (\<lambda>tr p. None)"
  "osRemoveAll quietWorld = (\<lambda>tr p. None)"
  "osMkdirAll quietWorld = (\<lambda>tr p m. None)"
  "gitPlainCloneContext quietWorld = (\<lambda>tr p b opts. None)"
  "newComposeDeployer quietWorld = (\<lambda>tr a. None)"
  "deployerDeploy quietWorld = (\<lambda>tr fs opts. None)"
  "deployerRemove quietWorld = (\<lambda>tr p. None)"
  "walkDir quietWorld = (\<lambda>tr root. [])"
  "checkRunningService quietWorld = (\<lambda>tr p. Inr [])"
  "deploySwarmStack quietWorld = (\<lambda>tr c p. None)"
  "updateService quietWorld = (\<lambda>tr i f. None)"
  by (simp_all add: quietWorld_def)

text \<open>The paths of the request \<open>billing\<close> and the binaries of the worlds, computed once.\<close>

lemma billing_paths:
  "strings_LastIndex ''https://example.com/org/billing-stack.git'' (CHR ''/'') = 23"
  "strings_LastIndex ''billing-stack.git'' (CHR ''/'') = - 1"
  "strings_TrimSuffix ''billing-stack.git'' ''.git'' = ''billing-stack''"
  "makeWorkingDir ''/data'' ''billing'' = ''/data/stacks/billing''"
  "filepath_Join [''/data/stacks/billing'', ''billing-stack''] = ''/data/stacks/billing/billing-stack''"
  "filepath_Join [''/data/stacks/billing/billing-stack'', ''docker-compose.yml'']
     = ''/data/stacks/billing/billing-stack/docker-compose.yml''"
  "findRootPaths [''/data/stacks/billing/billing-stack/docker-compose.yml'']
     = [''/data/stacks/billing/billing-stack'']"
  "filepath_Join [''/app'', ''docker''] = ''/app/docker''"
  "filepath_Join [''/app'', ''sops''] = ''/app/sops''"
  "filepath_Base ''/data/stacks/billing/billing-stack'' = ''billing-stack''"
  "filepath_Base ''/data/stacks/billing/billing-stack/app.sops.yml'' = ''app.sops.yml''"
  "filepath_Dir ''/data/stacks/billing/billing-stack/app.sops.yml''
     = ''/data/stacks/billing/billing-stack''"
  "strings_ReplaceAll ''app.sops.yml'' ''.sops.'' ''.'' = ''app.yml''"
  "pathWithin ''/data/stacks/billing'' ''/data/stacks/billing/billing-stack''"
  by (simp_all add: strings_LastIndex_def strings_TrimSuffix_def makeWorkingDir_def
      filepath_Join_def filepath_Clean_def findRootPaths_def filepath_Dir_def filepath_Base_def
      strings_HasPrefix_def suffix_def strings_ReplaceAll.simps pathWithin_def)

lemmas run_eval =
  DeployCommand_Run_def DeployCommand_body_def SwarmDeployCommand_Run_def
  SwarmDeployCommand_body_def DeployCommand_Run_v2_def SwarmDeployCommand_Run_v2_def
  SwarmDeployCommand_body_v2_def swarmDeploy_def swarmDeploy_v2_def swarmSecrets_def
  swarmStack_def forceUpdateServices_def deployCompose_def deployCompose_v2_def
  fromWorkspace_def stackCreate_def sopsDecrypt_def runCommandAndCaptureStdErr_def
  UndeployCommand_Run_def SwarmUndeployCommand_Run_def
  getDockerBinaryPath_def getSopsBinaryPath_def decryptArgs_def
  loginArgs_def logoutArgs_def composeFilePathsOf_def gitCloneOptions_def getAuth_def
  repositoryNameOf_def keptBilling_def forcedBilling_def strayBilling_def
  secretsWorld_def servicesWorld_def failingWorld_def
  cloneFailWorld_def noKeyWorld_def noDaemonWorld_def DirEntry_IsDir_def DirEntry_Name_def
  billing_paths emitted_def Let_def

section \<open>The claims about the runs\<close>

subsection \<open>The registry session\<close>

lemma loginCall_eq:
  "loginCall w
     = (\<lambda>r. (filepath_Join [BIN_PATH w, if GOOS w = ''windows'' then ''docker.exe'' else ''docker''],
             [''--config'', PORTAINER_DOCKER_CONFIG_PATH w, ''login'',
              ''--username'', strings_Split r (CHR '':'') ! 0,
              ''--password'', strings_Split r (CHR '':'') ! 1, strings_Split r (CHR '':'') ! 2],
             []))"
  by (auto simp: loginCall_def loginArgs_def getDockerBinaryPath_def)

lemma logoutCall_eq:
  "logoutCall w
     = (\<lambda>r. (filepath_Join [BIN_PATH w, if GOOS w = ''windows'' then ''docker.exe'' else ''docker''],
             [''--config'', PORTAINER_DOCKER_CONFIG_PATH w, ''logout'',
              strings_Split r (CHR '':'') ! 2],
             []))"
  by (auto simp: logoutCall_def logoutArgs_def getDockerBinaryPath_def)

text \<open>
  C9. The three runs that log in to the registries (\<open>DeployCommand.Run\<close> and
  \<open>SwarmDeployCommand.Run\<close> of deploy.go, \<open>SwarmDeployCommand.Run\<close> of the second version)
  log out before they return, in every world and with every result. The events of the run
  start with the commands \<open>docker --config <path> login --username <user> --password <password>
  <server>\<close> for the registries with three segments, and they end with a block that holds the
  commands \<open>docker --config <path> logout <server>\<close> for the same registries, in the same
  order, and besides them log lines only. Nothing of the run comes after the logout.
\<close>

theorem logout_always_follows_login:
  "(\<exists>b out. emitted tr (DeployCommand_Run w cmd tr) = b @ out
      \<and> prefix (map (\<lambda>r. (filepath_Join [BIN_PATH w,
                                if GOOS w = ''windows'' then ''docker.exe'' else ''docker''],
                           [''--config'', PORTAINER_DOCKER_CONFIG_PATH w, ''login'',
                            ''--username'', strings_Split r (CHR '':'') ! 0,
                            ''--password'', strings_Split r (CHR '':'') ! 1,
                            strings_Split r (CHR '':'') ! 2],
                           []))
                  (filter threeSegments (Registry cmd))) (calls b)
      \<and> calls out
          = map (\<lambda>r. (filepath_Join [BIN_PATH w,
                          if GOOS w = ''windows'' then ''docker.exe'' else ''docker''],
                       [''--config'', PORTAINER_DOCKER_CONFIG_PATH w, ''logout'',
                        strings_Split r (CHR '':'') ! 2],
                       []))
              (filter threeSegments (Registry cmd))
      \<and> kinds out \<subseteq> {LogK, CmdRunK})
   \<and> (\<exists>b out. emitted tr (SwarmDeployCommand_Run w cmd tr) = b @ out
      \<and> prefix (map (\<lambda>r. (filepath_Join [BIN_PATH w,
                                if GOOS w = ''windows'' then ''docker.exe'' else ''docker''],
                           [''--config'', PORTAINER_DOCKER_CONFIG_PATH w, ''login'',
                            ''--username'', strings_Split r (CHR '':'') ! 0,
                            ''--password'', strings_Split r (CHR '':'') ! 1,
                            strings_Split r (CHR '':'') ! 2],
                           []))
                  (filter threeSegments (Registry cmd))) (calls b)
      \<and> calls out
          = map (\<lambda>r. (filepath_Join [BIN_PATH w,
                          if GOOS w = ''windows'' then ''docker.exe'' else ''docker''],
                       [''--config'', PORTAINER_DOCKER_CONFIG_PATH w, ''logout'',
                        strings_Split r (CHR '':'') ! 2],
                       []))
              (filter threeSegments (Registry cmd))
      \<and> kinds out \<subseteq> {LogK, CmdRunK})
   \<and> (\<exists>b out. emitted tr (SwarmDeployCommand_Run_v2 w cmd tr) = b @ out
      \<and> prefix (map (\<lambda>r. (filepath_Join [BIN_PATH w,
                                if GOOS w = ''windows'' then ''docker.exe'' else ''docker''],
                           [''--config'', PORTAINER_DOCKER_CONFIG_PATH w, ''login'',
                            ''--username'', strings_Split r (CHR '':'') ! 0,
                            ''--password'', strings_Split r (CHR '':'') ! 1,
                            strings_Split r (CHR '':'') ! 2],
                           []))
                  (filter threeSegments (Registry cmd))) (calls b)
      \<and> calls out
          = map (\<lambda>r. (filepath_Join [BIN_PATH w,
                          if GOOS w = ''windows'' then ''docker.exe'' else ''docker''],
                       [''--config'', PORTAINER_DOCKER_CONFIG_PATH w, ''logout'',
                        strings_Split r (CHR '':'') ! 2],
                       []))
              (filter threeSegments (Registry cmd))
      \<and> kinds out \<subseteq> {LogK, CmdRunK})"
proof -
  let ?t = "tr @ [Log InfoLevel]"
  let ?u = "if User cmd \<noteq> [] \<and> Password cmd \<noteq> [] then [Log InfoLevel] else []"
  let ?p = "Log InfoLevel # emitted ?t (dockerLogin w (Registry cmd) ?t) @ ?u"
  let ?mp = "makeWorkingDir (Destination cmd) (ProjectName cmd)"
  let ?cp = "filepath_Join [?mp,
                  repositoryNameOf cmd (strings_LastIndex (GitRepository cmd) (CHR ''/''))]"
  let ?compose = "fromWorkspace w cmd (gitCloneOptions cmd 1 InvalidTagMode) ?mp ?cp
                    (deployCompose w cmd ?cp)"
  let ?body2 = "SwarmDeployCommand_body_v2 w cmd
       (tr @ Log InfoLevel # emitted ?t (dockerLogin w (Registry cmd) ?t))"
  have u: "kinds ?u \<subseteq> {LogK}" by simp
  have p: "?p = Log InfoLevel # emitted ?t (dockerLogin w (Registry cmd) ?t) @ ?u" by (rule refl)
  have "\<exists>b out. emitted tr (DeployCommand_Run w cmd tr) = b @ out
      \<and> prefix (map (loginCall w) (filter threeSegments (Registry cmd))) (calls b)
      \<and> calls out = map (logoutCall w) (filter threeSegments (Registry cmd))
      \<and> kinds out \<subseteq> {LogK, CmdRunK}"
  proof (rule bracket_shape [where stage = ?compose and body = "DeployCommand_body w cmd tr"
        and p = ?p and u = ?u,
        OF DeployCommand_body_eq [of w cmd tr] p u DeployCommand_Run_eq [of w cmd tr]])
    show "snd (?compose t) = t @ emitted t (?compose t)" for t
      by (rule fromWorkspace_snd [OF deployCompose_snd])
  qed
  moreover have "\<exists>b out. emitted tr (SwarmDeployCommand_Run w cmd tr) = b @ out
      \<and> prefix (map (loginCall w) (filter threeSegments (Registry cmd))) (calls b)
      \<and> calls out = map (logoutCall w) (filter threeSegments (Registry cmd))
      \<and> kinds out \<subseteq> {LogK, CmdRunK}"
  proof (rule bracket_shape [where stage = "swarmDeploy w cmd ?mp ?cp"
        and body = "SwarmDeployCommand_body w cmd tr" and p = ?p and u = ?u,
        OF SwarmDeployCommand_body_eq [of w cmd tr] p u SwarmDeployCommand_Run_eq [of w cmd tr]])
    show "snd (swarmDeploy w cmd ?mp ?cp t) = t @ emitted t (swarmDeploy w cmd ?mp ?cp t)" for t
      by (rule swarmDeploy_snd)
  qed
  moreover have "\<exists>b out. emitted tr (SwarmDeployCommand_Run_v2 w cmd tr) = b @ out
      \<and> prefix (map (loginCall w) (filter threeSegments (Registry cmd))) (calls b)
      \<and> calls out = map (logoutCall w) (filter threeSegments (Registry cmd))
      \<and> kinds out \<subseteq> {LogK, CmdRunK}"
  proof (rule bracket_shape [where stage = "swarmDeploy_v2 w cmd ?mp ?cp"
        and body = ?body2 and p = ?p and u = ?u,
        OF SwarmDeployCommand_body_v2_eq [of w cmd tr] p u
          SwarmDeployCommand_Run_v2_eq [of w cmd tr]])
    show "snd (swarmDeploy_v2 w cmd ?mp ?cp t) = t @ emitted t (swarmDeploy_v2 w cmd ?mp ?cp t)"
      for t
      by (rule swarmDeploy_v2_snd)
  qed
  ultimately show ?thesis
    unfolding loginCall_eq logoutCall_eq by (intro conjI)
qed

text \<open>The logout where a later step fails: the clone in the compose run, the query for the
  running services in the swarm runs. The last command of each run is the logout from the
  one registry of the request that has three segments.\<close>

theorem logout_always_follows_login_witness:
  "fst (DeployCommand_Run cloneFailWorld billing []) = Some errDeployComposeFailure
   \<and> last (calls (emitted [] (DeployCommand_Run cloneFailWorld billing [])))
       = (''/app/docker'', [''--config'', ''/config'', ''logout'', ''registry.example.com''], [])
   \<and> fst (SwarmDeployCommand_Run noDaemonWorld billing [])
       = Some (errors_New ''daemon unreachable'')
   \<and> last (calls (emitted [] (SwarmDeployCommand_Run noDaemonWorld billing [])))
       = (''/app/docker'', [''--config'', ''/config'', ''logout'', ''registry.example.com''], [])
   \<and> fst (SwarmDeployCommand_Run_v2 noDaemonWorld billing [])
       = Some (errors_New ''daemon unreachable'')
   \<and> last (calls (emitted [] (SwarmDeployCommand_Run_v2 noDaemonWorld billing [])))
       = (''/app/docker'', [''--config'', ''/config'', ''logout'', ''registry.example.com''], [])"
proof -
  have r: "filter threeSegments (Registry billing) = [''user:secret:registry.example.com'']"
    by (simp add: threeSegments_def)
  have f: "fst (DeployCommand_Run cloneFailWorld billing []) = Some errDeployComposeFailure"
    "fst (SwarmDeployCommand_Run noDaemonWorld billing []) = Some (errors_New ''daemon unreachable'')"
    "fst (SwarmDeployCommand_Run_v2 noDaemonWorld billing [])
       = Some (errors_New ''daemon unreachable'')"
    by (simp_all add: run_eval)
  obtain b1 out1 where 1: "emitted [] (DeployCommand_Run cloneFailWorld billing []) = b1 @ out1"
    "calls out1 = [(''/app/docker'', [''--config'', ''/config'', ''logout'',
                     ''registry.example.com''], [])]"
    using logout_always_follows_login [of "[]" cloneFailWorld billing, THEN conjunct1]
    unfolding r by (auto simp: cloneFailWorld_def billing_paths)
  obtain b2 out2 where 2: "emitted [] (SwarmDeployCommand_Run noDaemonWorld billing []) = b2 @ out2"
    "calls out2 = [(''/app/docker'', [''--config'', ''/config'', ''logout'',
                     ''registry.example.com''], [])]"
    using logout_always_follows_login [of "[]" noDaemonWorld billing,
        THEN conjunct2, THEN conjunct1]
    unfolding r by (auto simp: noDaemonWorld_def billing_paths)
  obtain b3 out3 where 3:
    "emitted [] (SwarmDeployCommand_Run_v2 noDaemonWorld billing []) = b3 @ out3"
    "calls out3 = [(''/app/docker'', [''--config'', ''/config'', ''logout'',
                     ''registry.example.com''], [])]"
    using logout_always_follows_login [of "[]" noDaemonWorld billing,
        THEN conjunct2, THEN conjunct2]
    unfolding r by (auto simp: noDaemonWorld_def billing_paths)
  show ?thesis
    unfolding 1(1) 2(1) 3(1) using f 1(2) 2(2) 3(2) by simp
qed

subsection \<open>The workspace of a kept stack\<close>

text \<open>
  C8, as far as it holds. When \<open>keep\<close> is set, no deploy run of either version looks up,
  removes or creates the workspace directory, and none clones the repository: the events of
  the run hold no call of \<open>os.Stat\<close>, \<open>os.RemoveAll\<close>, \<open>os.MkdirAll\<close> or
  \<open>git.PlainCloneContext\<close>. These calls are made only when \<open>keep\<close> is not set.
\<close>

theorem keep_skips_workspace_setup:
  "Keep cmd \<Longrightarrow>
     kinds (emitted tr (DeployCommand_Run w cmd tr)) \<inter> setupKinds = {}
     \<and> kinds (emitted tr (SwarmDeployCommand_Run w cmd tr)) \<inter> setupKinds = {}
     \<and> kinds (emitted tr (DeployCommand_Run_v2 w cmd tr)) \<inter> setupKinds = {}
     \<and> kinds (emitted tr (SwarmDeployCommand_Run_v2 w cmd tr)) \<inter> setupKinds = {}"
proof -
  assume k: "Keep cmd"
  have "kinds (emitted tr (DeployCommand_Run w cmd tr)) \<inter> setupKinds = {}"
    using DeployCommand_Run_summary [of tr w cmd, THEN conjunct1] k
    by (auto simp: setupKinds_def)
  moreover have "kinds (emitted tr (SwarmDeployCommand_Run w cmd tr)) \<inter> setupKinds = {}"
    using SwarmDeployCommand_Run_summary [of tr w cmd, THEN conjunct1] k
    by (auto simp: setupKinds_def)
  moreover have "kinds (emitted tr (DeployCommand_Run_v2 w cmd tr)) \<inter> setupKinds = {}"
    using DeployCommand_Run_v2_summary [of tr w cmd, THEN conjunct1] k
    by (auto simp: setupKinds_def)
  moreover have "kinds (emitted tr (SwarmDeployCommand_Run_v2 w cmd tr)) \<inter> setupKinds = {}"
    using SwarmDeployCommand_Run_v2_summary [of tr w cmd, THEN conjunct1] k
    by (auto simp: setupKinds_def)
  ultimately show ?thesis by blast
qed

theorem keep_skips_workspace_setup_witness:
  "Keep keptBilling
   \<and> kinds (emitted [] (DeployCommand_Run secretsWorld keptBilling [])) \<inter> setupKinds = {}
   \<and> kinds (emitted [] (SwarmDeployCommand_Run secretsWorld keptBilling [])) \<inter> setupKinds = {}
   \<and> kinds (emitted [] (DeployCommand_Run_v2 secretsWorld keptBilling [])) \<inter> setupKinds = {}
   \<and> kinds (emitted [] (SwarmDeployCommand_Run_v2 secretsWorld keptBilling [])) \<inter> setupKinds = {}"
proof -
  have k: "Keep keptBilling" by (simp add: keptBilling_def)
  from keep_skips_workspace_setup [of keptBilling "[]" secretsWorld, OF k] k
  show ?thesis by blast
qed

text \<open>
  The last part of the claim, that the workspace is modified only when \<open>keep\<close> is not set,
  fails for deploy.go, which decrypts the secret files of the workspace in every run. With
  \<open>keep\<close> set and a file \<open>app.sops.yml\<close> beside the compose file, \<open>DeployCommand.Run\<close> runs
  the decrypt tool in the clone directory, which lies in the workspace \<open>/data/stacks/billing\<close>,
  and has it write \<open>app.yml\<close> there.
\<close>

theorem keep_still_writes_decrypted_files:
  "Keep keptBilling
   \<and> makeWorkingDir (Destination keptBilling) (ProjectName keptBilling) = ''/data/stacks/billing''
   \<and> CmdRun ''/app/sops'' [''--output'', ''app.yml'', ''--decrypt'', ''app.sops.yml''] None
         ''/data/stacks/billing/billing-stack'' None
       \<in> set (emitted [] (DeployCommand_Run secretsWorld keptBilling []))
   \<and> writesInto ''/data/stacks/billing''
        (CmdRun ''/app/sops'' [''--output'', ''app.yml'', ''--decrypt'', ''app.sops.yml''] None
           ''/data/stacks/billing/billing-stack'' None)"
  by (simp add: run_eval)

subsection \<open>The errors that the commands return\<close>

text \<open>
  C6, as far as it holds. What a run returns is decided by the first step of it that fails.
  For the four deploy runs: a repository URL without \<open>/\<close> gives the generic
  \<open>errDeployComposeFailure\<close>; otherwise the run returns the generic error when the first
  failure is that of the removal or the creation of the workspace, of the clone, of a
  decrypt command, of the creation of the compose deployer or of the compose deployment, it
  returns the error of the query for the running services or of \<open>deploySwarmStack\<close> as it
  got it when that is the first failure, and it returns \<open>nil\<close> when no such step fails.
  \<open>UndeployCommand.Run\<close> returns the generic error for a URL without \<open>/\<close> and when the removal
  of the stack fails. \<open>SwarmUndeployCommand.Run\<close> returns the error that is made of the text
  which the failed \<open>docker stack rm\<close> wrote to stderr. So \<open>DeployCommand.Run\<close> of both versions
  and \<open>UndeployCommand.Run\<close> return no error but the generic one.
\<close>

theorem fatal_errors_of_the_commands:
  "fst (DeployCommand_Run w cmd tr)
     = (if strings_LastIndex (GitRepository cmd) (CHR ''/'') = - 1
        then Some errDeployComposeFailure
        else firstFailure deployFailure (emitted tr (DeployCommand_Run w cmd tr)))
   \<and> fst (DeployCommand_Run_v2 w cmd tr)
     = (if strings_LastIndex (GitRepository cmd) (CHR ''/'') = - 1
        then Some errDeployComposeFailure
        else firstFailure deployFailure (emitted tr (DeployCommand_Run_v2 w cmd tr)))
   \<and> fst (SwarmDeployCommand_Run w cmd tr)
     = (if strings_LastIndex (GitRepository cmd) (CHR ''/'') = - 1
        then Some errDeployComposeFailure
        else firstFailure deployFailure (emitted tr (SwarmDeployCommand_Run w cmd tr)))
   \<and> fst (SwarmDeployCommand_Run_v2 w cmd tr)
     = (if strings_LastIndex (GitRepository cmd) (CHR ''/'') = - 1
        then Some errDeployComposeFailure
        else firstFailure deployFailure (emitted tr (SwarmDeployCommand_Run_v2 w cmd tr)))
   \<and> fst (UndeployCommand_Run w cmd tr)
     = (if strings_LastIndex (GitRepository cmd) (CHR ''/'') = - 1
        then Some errDeployComposeFailure
        else firstFailure undeployFailure (emitted tr (UndeployCommand_Run w cmd tr)))
   \<and> fst (SwarmUndeployCommand_Run w cmd tr)
     = firstFailure undeployFailure (emitted tr (SwarmUndeployCommand_Run w cmd tr))
   \<and> (\<forall>e. fst (DeployCommand_Run w cmd tr) = Some e \<longrightarrow> e = errDeployComposeFailure)
   \<and> (\<forall>e. fst (DeployCommand_Run_v2 w cmd tr) = Some e \<longrightarrow> e = errDeployComposeFailure)
   \<and> (\<forall>e. fst (UndeployCommand_Run w cmd tr) = Some e \<longrightarrow> e = errDeployComposeFailure)"
proof -
  have compose: "\<forall>e. fst (DeployCommand_Run w cmd tr) = Some e \<longrightarrow> e = errDeployComposeFailure"
    using DeployCommand_Run_summary [of tr w cmd] by blast
  have compose2: "\<forall>e. fst (DeployCommand_Run_v2 w cmd tr) = Some e \<longrightarrow> e = errDeployComposeFailure"
    using DeployCommand_Run_v2_summary [of tr w cmd] by blast
  have undeploy: "\<forall>e. fst (UndeployCommand_Run w cmd tr) = Some e \<longrightarrow> e = errDeployComposeFailure"
    using UndeployCommand_Run_errors [of w cmd tr] by blast
  show ?thesis
    by (intro conjI DeployCommand_Run_verdict DeployCommand_Run_v2_verdict
        SwarmDeployCommand_Run_verdict SwarmDeployCommand_Run_v2_verdict
        UndeployCommand_Run_verdict SwarmUndeployCommand_Run_verdict compose compose2 undeploy)
qed

text \<open>
  A run for each way to fail. The clone fails: the generic error. Every command fails, in a
  workspace with a secret file: the failed login is passed over and the failed decrypt
  command gives the generic error. The query for the running services fails: its error is
  returned. The URL has no \<open>/\<close>: the generic error. \<open>docker stack rm\<close> fails: the error with
  what it wrote to stderr.
\<close>

theorem fatal_errors_of_the_commands_witness:
  "PlainCloneContext ''/data/stacks/billing/billing-stack'' False
       (gitCloneOptions billing 1 InvalidTagMode) (Some ''repository not found'')
     \<in> set (emitted [] (DeployCommand_Run cloneFailWorld billing []))
   \<and> fst (DeployCommand_Run cloneFailWorld billing []) = Some errDeployComposeFailure
   \<and> CmdRun ''/app/sops'' [''--output'', ''app.yml'', ''--decrypt'', ''app.sops.yml''] None
         ''/data/stacks/billing/billing-stack'' (Some ''no key'')
     \<in> set (emitted [] (DeployCommand_Run noKeyWorld billing []))
   \<and> fst (DeployCommand_Run noKeyWorld billing []) = Some errDeployComposeFailure
   \<and> CheckRunningService ''billing'' (Inl (errors_New ''daemon unreachable''))
     \<in> set (emitted [] (SwarmDeployCommand_Run_v2 noDaemonWorld billing []))
   \<and> fst (SwarmDeployCommand_Run_v2 noDaemonWorld billing [])
       = Some (errors_New ''daemon unreachable'')
   \<and> fst (SwarmDeployCommand_Run quietWorld strayBilling []) = Some errDeployComposeFailure
   \<and> fst (SwarmUndeployCommand_Run failingWorld strayBilling [])
       = Some (errors_New ''no such stack'')
   \<and> fst (DeployCommand_Run quietWorld billing []) = None"
proof -
  have u: "strings_LastIndex (GitRepository billing) (CHR ''/'') \<noteq> - 1"
    "strings_LastIndex (GitRepository strayBilling) (CHR ''/'') = - 1"
    by (simp_all add: strayBilling_def billing_paths)
  have e: "PlainCloneContext ''/data/stacks/billing/billing-stack'' False
       (gitCloneOptions billing 1 InvalidTagMode) (Some ''repository not found'')
     \<in> set (emitted [] (DeployCommand_Run cloneFailWorld billing []))"
    "CmdRun ''/app/sops'' [''--output'', ''app.yml'', ''--decrypt'', ''app.sops.yml''] None
         ''/data/stacks/billing/billing-stack'' (Some ''no key'')
     \<in> set (emitted [] (DeployCommand_Run noKeyWorld billing []))"
    "CheckRunningService ''billing'' (Inl (errors_New ''daemon unreachable''))
     \<in> set (emitted [] (SwarmDeployCommand_Run_v2 noDaemonWorld billing []))"
    by (simp_all add: run_eval)
  have f: "firstFailure deployFailure (emitted [] (DeployCommand_Run cloneFailWorld billing []))
      = Some errDeployComposeFailure"
    "firstFailure deployFailure (emitted [] (DeployCommand_Run noKeyWorld billing []))
      = Some errDeployComposeFailure"
    "firstFailure deployFailure (emitted [] (SwarmDeployCommand_Run_v2 noDaemonWorld billing []))
      = Some (errors_New ''daemon unreachable'')"
    "firstFailure undeployFailure (emitted [] (SwarmUndeployCommand_Run failingWorld strayBilling []))
      = Some (errors_New ''no such stack'')"
    "firstFailure deployFailure (emitted [] (DeployCommand_Run quietWorld billing [])) = None"
    by (simp_all add: run_eval)
  note A = fatal_errors_of_the_commands [of cloneFailWorld billing "[]"]
  note B = fatal_errors_of_the_commands [of noKeyWorld billing "[]"]
  note C = fatal_errors_of_the_commands [of noDaemonWorld billing "[]"]
  note D = fatal_errors_of_the_commands [of quietWorld strayBilling "[]"]
  note E = fatal_errors_of_the_commands [of failingWorld strayBilling "[]"]
  note F = fatal_errors_of_the_commands [of quietWorld billing "[]"]
  have "fst (DeployCommand_Run cloneFailWorld billing []) = Some errDeployComposeFailure"
    using A [THEN conjunct1] u(1) f(1) by simp
  moreover have "fst (DeployCommand_Run noKeyWorld billing []) = Some errDeployComposeFailure"
    using B [THEN conjunct1] u(1) f(2) by simp
  moreover have "fst (SwarmDeployCommand_Run_v2 noDaemonWorld billing [])
       = Some (errors_New ''daemon unreachable'')"
    using C [THEN conjunct2, THEN conjunct2, THEN conjunct2, THEN conjunct1] u(1) f(3) by simp
  moreover have "fst (SwarmDeployCommand_Run quietWorld strayBilling [])
       = Some errDeployComposeFailure"
    using D [THEN conjunct2, THEN conjunct2, THEN conjunct1] u(2) by simp
  moreover have "fst (SwarmUndeployCommand_Run failingWorld strayBilling [])
       = Some (errors_New ''no such stack'')"
    using E [THEN conjunct2, THEN conjunct2, THEN conjunct2, THEN conjunct2, THEN conjunct2,
        THEN conjunct1] f(4) by simp
  moreover have "fst (DeployCommand_Run quietWorld billing []) = None"
    using F [THEN conjunct1] u(1) f(5) by simp
  ultimately show ?thesis using e by blast
qed

text \<open>
  The claim as the specification has it fails for the swarm commands. Where \<open>docker stack rm\<close>
  fails with \<open>no such stack\<close> on stderr, \<open>SwarmUndeployCommand.Run\<close> returns
  \<open>errors.New("no such stack")\<close>, which is not the generic error.
\<close>

theorem swarm_undeploy_returns_stderr:
  "fst (SwarmUndeployCommand_Run failingWorld billing []) = Some (errors_New ''no such stack'')
   \<and> errors_New ''no such stack'' \<noteq> errDeployComposeFailure"
  by (simp add: run_eval)

subsection \<open>The flags of the compose deployment\<close>

text \<open>
  C5, as far as it holds. \<open>DeployCommand.Run\<close> of the second version gives the deploy call
  the flags of the request: \<open>ForceRecreate\<close> is \<open>cmd.ForceRecreateStack\<close> and \<open>RemoveOrphans\<close> is
  \<open>cmd.Prune\<close>. \<open>DeployCommand.Run\<close> of deploy.go does not read the two flags: every deploy
  call that it makes has \<open>ForceRecreate\<close> set and \<open>RemoveOrphans\<close> not set. Both pass the
  project name and the environment of the request on as they are.
\<close>

theorem deploy_call_flags:
  "(\<forall>opts \<in> set (deployOpts (emitted tr (DeployCommand_Run_v2 w cmd tr))).
       opt_ForceRecreate opts = ForceRecreateStack cmd
       \<and> opt_RemoveOrphans opts = Prune cmd
       \<and> opt_ProjectName opts = ProjectName cmd \<and> opt_Env opts = Env cmd)
   \<and> (\<forall>opts \<in> set (deployOpts (emitted tr (DeployCommand_Run w cmd tr))).
       opt_ForceRecreate opts = True
       \<and> opt_RemoveOrphans opts = False
       \<and> opt_ProjectName opts = ProjectName cmd \<and> opt_Env opts = Env cmd)"
  using DeployCommand_Run_v2_summary [of tr w cmd, THEN conjunct2, THEN conjunct2]
    DeployCommand_Run_summary [of tr w cmd, THEN conjunct2, THEN conjunct2]
  by (rule conjI)

theorem deploy_call_flags_witness:
  "map opt_ForceRecreate (deployOpts (emitted [] (DeployCommand_Run_v2 quietWorld forcedBilling [])))
     = [True]
   \<and> map opt_RemoveOrphans (deployOpts (emitted [] (DeployCommand_Run_v2 quietWorld forcedBilling [])))
     = [True]
   \<and> map opt_ProjectName (deployOpts (emitted [] (DeployCommand_Run quietWorld forcedBilling [])))
     = [''billing'']"
proof -
  let ?v2 = "deployOpts (emitted [] (DeployCommand_Run_v2 quietWorld forcedBilling []))"
  let ?v1 = "deployOpts (emitted [] (DeployCommand_Run quietWorld forcedBilling []))"
  have f: "ForceRecreateStack forcedBilling" "Prune forcedBilling"
    "ProjectName forcedBilling = ''billing''"
    by (simp_all add: forcedBilling_def)
  have "length ?v2 = 1" by (simp add: run_eval)
  then obtain a where a: "?v2 = [a]" by (auto simp: length_Suc_conv)
  have "length ?v1 = 1" by (simp add: run_eval)
  then obtain b where b: "?v1 = [b]" by (auto simp: length_Suc_conv)
  note T = deploy_call_flags [of "[]" quietWorld forcedBilling]
  have "opt_ForceRecreate a \<and> opt_RemoveOrphans a"
    using T [THEN conjunct1] f unfolding a by simp
  moreover have "opt_ProjectName b = ''billing''"
    using T [THEN conjunct2] f unfolding b by simp
  ultimately show ?thesis unfolding a b by simp
qed

text \<open>
  The claim as the specification has it fails for deploy.go. A request that asks neither
  for a forced recreation nor for pruning is deployed with \<open>ForceRecreate\<close> set, and a
  request that asks for both is deployed with \<open>RemoveOrphans\<close> not set.
\<close>

theorem deploy_overrides_flags:
  "\<not> ForceRecreateStack billing
   \<and> map opt_ForceRecreate (deployOpts (emitted [] (DeployCommand_Run quietWorld billing [])))
       = [True]
   \<and> Prune forcedBilling
   \<and> map opt_RemoveOrphans (deployOpts (emitted [] (DeployCommand_Run quietWorld forcedBilling [])))
       = [False]"
  by (simp add: run_eval)

subsection \<open>The forced update of the swarm services\<close>

text \<open>
  C1, as far as it holds. In both versions the forced updates of a swarm run are the
  services of the answer to the query after the deployment that were in the answer to the
  query before it, and there are none without these two answers. In the second version the
  query after the deployment is made when and only when the deployment succeeded, the
  request asks for a forced recreation and the answer before the deployment held a service.
  In deploy.go the request is not looked at: the query is made when and only when the
  deployment succeeded and the answer before it held a service.
\<close>

theorem forced_update_of_services:
  "updates (emitted tr (SwarmDeployCommand_Run_v2 w cmd tr))
     = forcedOf (queries (emitted tr (SwarmDeployCommand_Run_v2 w cmd tr)))
   \<and> (length (queries (emitted tr (SwarmDeployCommand_Run_v2 w cmd tr))) = 2
        \<longleftrightarrow> None \<in> set (swarmDeploys (emitted tr (SwarmDeployCommand_Run_v2 w cmd tr)))
            \<and> ForceRecreateStack cmd
            \<and> wasRunning (queries (emitted tr (SwarmDeployCommand_Run_v2 w cmd tr))))
   \<and> updates (emitted tr (SwarmDeployCommand_Run w cmd tr))
       = forcedOf (queries (emitted tr (SwarmDeployCommand_Run w cmd tr)))
   \<and> (length (queries (emitted tr (SwarmDeployCommand_Run w cmd tr))) = 2
        \<longleftrightarrow> None \<in> set (swarmDeploys (emitted tr (SwarmDeployCommand_Run w cmd tr)))
            \<and> wasRunning (queries (emitted tr (SwarmDeployCommand_Run w cmd tr))))"
  using SwarmDeployCommand_Run_v2_summary [of tr w cmd, THEN conjunct2]
    SwarmDeployCommand_Run_summary [of tr w cmd, THEN conjunct2]
  unfolding runFacts_def by simp

theorem forced_update_of_services_witness:
  "queries (emitted [] (SwarmDeployCommand_Run_v2 servicesWorld forcedBilling []))
     = [Inr [''svc1'', ''svc2''], Inr [''svc2'', ''svc3'']]
   \<and> updates (emitted [] (SwarmDeployCommand_Run_v2 servicesWorld forcedBilling [])) = [''svc2'']
   \<and> queries (emitted [] (SwarmDeployCommand_Run_v2 servicesWorld billing []))
     = [Inr [''svc1'', ''svc2'']]
   \<and> updates (emitted [] (SwarmDeployCommand_Run_v2 servicesWorld billing [])) = []"
proof -
  have q: "queries (emitted [] (SwarmDeployCommand_Run_v2 servicesWorld forcedBilling []))
     = [Inr [''svc1'', ''svc2''], Inr [''svc2'', ''svc3'']]"
    by (simp add: run_eval)
  have q': "queries (emitted [] (SwarmDeployCommand_Run_v2 servicesWorld billing []))
     = [Inr [''svc1'', ''svc2'']]"
    by (simp add: run_eval)
  have "updates (emitted [] (SwarmDeployCommand_Run_v2 servicesWorld forcedBilling []))
      = [''svc2'']"
    using forced_update_of_services [of "[]" servicesWorld forcedBilling, THEN conjunct1]
    unfolding q by simp
  moreover have "updates (emitted [] (SwarmDeployCommand_Run_v2 servicesWorld billing [])) = []"
    using forced_update_of_services [of "[]" servicesWorld billing, THEN conjunct1]
    unfolding q' by simp
  ultimately show ?thesis using q q' by simp
qed

text \<open>
  The claim as the specification has it fails for deploy.go. For a request that does not
  ask for a forced recreation, in a world where \<open>svc1\<close> and \<open>svc2\<close> run before the deployment
  and \<open>svc2\<close> and \<open>svc3\<close> after it, \<open>SwarmDeployCommand.Run\<close> of deploy.go asks for the services
  a second time and forces an update of \<open>svc2\<close>.
\<close>

theorem swarm_forces_update_unasked:
  "\<not> ForceRecreateStack billing
   \<and> queries (emitted [] (SwarmDeployCommand_Run servicesWorld billing []))
       = [Inr [''svc1'', ''svc2''], Inr [''svc2'', ''svc3'']]
   \<and> updates (emitted [] (SwarmDeployCommand_Run servicesWorld billing [])) = [''svc2'']"
  by (simp add: run_eval)

end
